theory Spec2Isabelle
  imports Complex_Main
begin

section \<open>Python values, errors and strings\<close>

text \<open>
  The exceptions of \<^verbatim>\<open>openpnm/core/_base2.py\<close>. The two bare \<^verbatim>\<open>Exception\<close>s of
  \<^verbatim>\<open>Base2.__setitem__\<close> are told apart by their message: \<open>NamingError\<close> is
  "All keys must start with either pore, or throat" and \<open>LengthError key\<close> is
  "Provided array is wrong length for key". \<open>ValueError\<close> is what the unpacking
  \<^verbatim>\<open>element, prop = key.split('.', 1)\<close> raises on a key with no dot, and what NumPy
  raises when shapes do not broadcast. \<open>RecursionError\<close> is Python's answer to a call
  depth beyond the interpreter's limit.
\<close>

datatype exn = ValueError | KeyError string | NamingError | LengthError string
  | TypeError | IndexError | AttributeError | RecursionError | ModelError

text \<open>
  Arrays are NumPy arrays of boolean or floating dtype: a shape and the elements in
  row-major order. A float is the real it denotes, or NaN. Arrays are values here:
  two keys never share one array object.
\<close>

datatype dtype = DBool | DFloat

datatype scalar = PBool bool | PFloat real | PNaN

record ndarray =
  dtype :: dtype
  shape :: "nat list"
  data :: "scalar list"

datatype pyval = PNone | PScalar scalar | PArr ndarray | PDict "(string \<times> pyval) list"

fun dtype_of :: "scalar \<Rightarrow> dtype" where
  "dtype_of (PBool b) = DBool"
| "dtype_of (PFloat r) = DFloat"
| "dtype_of PNaN = DFloat"

definition wf_array :: "ndarray \<Rightarrow> bool" where
  "wf_array a = (length (data a) = prod_list (shape a) \<and> list_all (\<lambda>x. dtype_of x = dtype a) (data a))"

text \<open>\<^verbatim>\<open>s.startswith(p)\<close>, \<^verbatim>\<open>s.split(c)\<close> and \<^verbatim>\<open>s.split(c, 1)\<close>.\<close>

fun startswith :: "string \<Rightarrow> string \<Rightarrow> bool" where
  "startswith s [] = True"
| "startswith [] (p # ps) = False"
| "startswith (c # cs) (p # ps) = (c = p \<and> startswith cs ps)"

primrec str_split :: "char \<Rightarrow> string \<Rightarrow> string list" where
  "str_split c [] = [[]]"
| "str_split c (x # xs) =
     (if x = c then [] # str_split c xs
      else (case str_split c xs of [] \<Rightarrow> [[x]] | w # ws \<Rightarrow> (x # w) # ws))"

definition str_split1 :: "char \<Rightarrow> string \<Rightarrow> string list" where
  "str_split1 c s =
     (if c \<in> set s then [takeWhile (\<lambda>x. x \<noteq> c) s, tl (dropWhile (\<lambda>x. x \<noteq> c) s)] else [s])"

text \<open>
  A Python dict keeps insertion order: \<^verbatim>\<open>d.update({k: v})\<close> replaces the value of a
  present key where it stands and appends an absent one.
\<close>

fun dict_update :: "'k \<Rightarrow> 'v \<Rightarrow> ('k \<times> 'v) list \<Rightarrow> ('k \<times> 'v) list" where
  "dict_update k v [] = [(k, v)]"
| "dict_update k v ((k', v') # kvs) =
     (if k' = k then (k, v) # kvs else (k', v') # dict_update k v kvs)"

section \<open>The NumPy operations the code calls\<close>

definition ndim :: "ndarray \<Rightarrow> nat" where
  "ndim a = length (shape a)"

text \<open>
  Casting on assignment into an array of the given dtype. Two dtypes are modelled,
  \<^verbatim>\<open>bool\<close> and \<^verbatim>\<open>float64\<close>, a float being the real it denotes: the rounding of a narrower
  float dtype and integer or object arrays are outside the model.
\<close>

fun np_cast :: "dtype \<Rightarrow> scalar \<Rightarrow> scalar" where
  "np_cast DBool (PBool b) = PBool b"
| "np_cast DBool (PFloat r) = PBool (r \<noteq> 0)"
| "np_cast DBool PNaN = PBool True"
| "np_cast DFloat (PBool b) = PFloat (if b then 1 else 0)"
| "np_cast DFloat (PFloat r) = PFloat r"
| "np_cast DFloat PNaN = PNaN"

text \<open>\<^verbatim>\<open>np.array(x, ndmin=1)\<close> of a Python scalar.\<close>

definition np_array_ndmin1 :: "scalar \<Rightarrow> ndarray" where
  "np_array_ndmin1 x = \<lparr>dtype = dtype_of x, shape = [1], data = [x]\<rparr>"

text \<open>
  \<^verbatim>\<open>np.ones(n, dtype=bool)\<close>, where \<open>n\<close> is a count and may be \<^verbatim>\<open>None\<close>: NumPy 1 reads
  the shape \<^verbatim>\<open>None\<close> as \<^verbatim>\<open>()\<close>. No statement below rests on that case.
\<close>

fun np_ones_bool :: "nat option \<Rightarrow> ndarray" where
  "np_ones_bool None = \<lparr>dtype = DBool, shape = [], data = [PBool True]\<rparr>"
| "np_ones_bool (Some n) = \<lparr>dtype = DBool, shape = [n], data = replicate n (PBool True)\<rparr>"

text \<open>An array of the given shape filled with one value.\<close>

definition np_full :: "dtype \<Rightarrow> nat list \<Rightarrow> scalar \<Rightarrow> ndarray" where
  "np_full dt shp x = \<lparr>dtype = dt, shape = shp, data = replicate (prod_list shp) x\<rparr>"

text \<open>
  Broadcasting. Shapes are aligned at their last axis; two lengths agree when they are
  equal or one of them is 1.
\<close>

fun bshape_rev :: "nat list \<Rightarrow> nat list \<Rightarrow> nat list option" where
  "bshape_rev [] ys = Some ys"
| "bshape_rev (x # xs) [] = Some (x # xs)"
| "bshape_rev (x # xs) (y # ys) =
     (if x = y \<or> y = 1 then map_option ((#) x) (bshape_rev xs ys)
      else if x = 1 then map_option ((#) y) (bshape_rev xs ys)
      else None)"

definition broadcast_shapes :: "nat list \<Rightarrow> nat list \<Rightarrow> nat list option" where
  "broadcast_shapes a b = map_option rev (bshape_rev (rev a) (rev b))"

fun bcast_rows :: "nat \<Rightarrow> nat \<Rightarrow> ('a list \<Rightarrow> 'a list option) \<Rightarrow> 'a list \<Rightarrow> 'a list option" where
  "bcast_rows 0 n f xs = Some []"
| "bcast_rows (Suc k) n f xs =
     (case f (take n xs) of None \<Rightarrow> None
      | Some r \<Rightarrow> map_option ((@) r) (bcast_rows k n f (drop n xs)))"

text \<open>
  \<open>bcast t s xs\<close>: the elements \<open>xs\<close> of an array of shape \<open>s\<close>, repeated to the
  shape \<open>t\<close> of the same number of axes.
\<close>

fun bcast :: "nat list \<Rightarrow> nat list \<Rightarrow> 'a list \<Rightarrow> 'a list option" where
  "bcast [] [] xs = Some xs"
| "bcast (t # ts) (s # ss) xs =
     (if s = t then bcast_rows t (prod_list ss) (bcast ts ss) xs
      else if s = 1 then map_option (\<lambda>r. concat (replicate t r)) (bcast ts ss xs)
      else None)"
| "bcast [] (s # ss) xs = None"
| "bcast (t # ts) [] xs = None"

definition broadcast_to :: "nat list \<Rightarrow> nat list \<Rightarrow> 'a list \<Rightarrow> 'a list option" where
  "broadcast_to t s xs =
     (if length t < length s then None
      else bcast t (replicate (length t - length s) 1 @ s) xs)"

text \<open>
  \<^verbatim>\<open>np.ones((n, ), dtype=value.dtype)*value\<close>: the product with one is the value
  itself in both dtypes, so the result is \<open>value\<close> broadcast against the shape \<open>(n,)\<close>.
\<close>

definition ones_times :: "nat \<Rightarrow> ndarray \<Rightarrow> exn + ndarray" where
  "ones_times n v =
     (case broadcast_shapes [n] (shape v) of
        None \<Rightarrow> Inl ValueError
      | Some t \<Rightarrow>
          (case broadcast_to t (shape v) (data v) of
             None \<Rightarrow> Inl ValueError
           | Some xs \<Rightarrow> Inr \<lparr>dtype = dtype v, shape = t, data = xs\<rparr>))"

text \<open>
  Indexing with a boolean mask, \<^verbatim>\<open>a[m]\<close> and \<^verbatim>\<open>a[m] = value\<close>. The mask's shape has to be
  the leading part of the array's shape, except that NumPy lets an axis of length 0 of the
  mask stand against any length; each mask element stands for one cell of
  \<open>prod_list (drop (ndim m) (shape a))\<close> elements.
\<close>

definition mask_bits :: "ndarray \<Rightarrow> bool list" where
  "mask_bits m = map (\<lambda>x. x = PBool True) (data m)"

fun select_cells :: "nat \<Rightarrow> bool list \<Rightarrow> 'a list \<Rightarrow> 'a list" where
  "select_cells n [] xs = []"
| "select_cells n (b # bs) xs = (if b then take n xs else []) @ select_cells n bs (drop n xs)"

fun scatter_cells :: "nat \<Rightarrow> bool list \<Rightarrow> 'a list \<Rightarrow> 'a list \<Rightarrow> 'a list" where
  "scatter_cells n [] xs ys = xs"
| "scatter_cells n (b # bs) xs ys =
     (if b then take n ys @ scatter_cells n bs (drop n xs) (drop n ys)
      else take n xs @ scatter_cells n bs (drop n xs) ys)"

definition mask_ok :: "ndarray \<Rightarrow> ndarray \<Rightarrow> bool" where
  "mask_ok a m =
     (dtype m = DBool \<and>
      list_all2 (\<lambda>dm da. dm = 0 \<or> dm = da) (shape m) (take (ndim m) (shape a)))"

definition mask_get :: "ndarray \<Rightarrow> ndarray \<Rightarrow> exn + ndarray" where
  "mask_get a m =
     (if \<not> mask_ok a m then Inl IndexError
      else Inr \<lparr>dtype = dtype a,
                shape = length (filter id (mask_bits m)) # drop (ndim m) (shape a),
                data = select_cells (prod_list (drop (ndim m) (shape a))) (mask_bits m) (data a)\<rparr>)"

text \<open>
  The right-hand side of an assignment of \<open>k\<close> cells into an array of dtype \<open>dt\<close>, as a
  shape and elements already cast: \<^verbatim>\<open>None\<close> is NaN in a float array and \<^verbatim>\<open>False\<close> in a
  boolean one; a dict has a truth value but no float value. \<open>boxed\<close> says that the value
  has been through \<^verbatim>\<open>np.array(value)\<close>: a dict is then the element of a 0-d object array
  and is converted only where a cell is assigned, so that with no cell selected nothing
  is raised.
\<close>

fun rhs_array :: "dtype \<Rightarrow> bool \<Rightarrow> nat \<Rightarrow> pyval \<Rightarrow> exn + (nat list \<times> scalar list)" where
  "rhs_array dt boxed k PNone =
     Inr ([], [case dt of DBool \<Rightarrow> PBool False | DFloat \<Rightarrow> PNaN])"
| "rhs_array dt boxed k (PScalar x) = Inr ([], [np_cast dt x])"
| "rhs_array dt boxed k (PArr v) = Inr (shape v, map (np_cast dt) (data v))"
| "rhs_array dt boxed k (PDict kvs) =
     (case dt of
        DBool \<Rightarrow> Inr ([], [PBool (kvs \<noteq> [])])
      | DFloat \<Rightarrow> if boxed \<and> k = 0 then Inr ([], [PNaN]) else Inl TypeError)"

text \<open>Up to \<open>k\<close> leading axes of length 1 are dropped from a value with too many axes.\<close>

fun strip_ones :: "nat \<Rightarrow> nat list \<Rightarrow> nat list" where
  "strip_ones 0 s = s"
| "strip_ones (Suc k) [] = []"
| "strip_ones (Suc k) (d # ds) = (if d = 1 then strip_ones k ds else d # ds)"

definition mask_set :: "ndarray \<Rightarrow> ndarray \<Rightarrow> bool \<Rightarrow> pyval \<Rightarrow> exn + ndarray" where
  "mask_set a m boxed value =
     (if \<not> mask_ok a m then Inl IndexError
      else
        (case rhs_array (dtype a) boxed (length (filter id (mask_bits m))) value of
           Inl e \<Rightarrow> Inl e
         | Inr (vs, vd) \<Rightarrow>
             let t = length (filter id (mask_bits m)) # drop (ndim m) (shape a) in
             if length t < length vs \<and> shape m = shape a then Inl TypeError
             else
               (case broadcast_to t (strip_ones (length vs - length t) vs) vd of
                  None \<Rightarrow> Inl ValueError
                | Some ys \<Rightarrow>
                    Inr (a\<lparr>data := scatter_cells (prod_list (drop (ndim m) (shape a)))
                                     (mask_bits m) (data a) ys\<rparr>))))"

section \<open>The store: \<^verbatim>\<open>Base2\<close> and \<^verbatim>\<open>Domain\<close>\<close>

text \<open>
  The object is a dict from keys to arrays, in insertion order, with its name
  (\<^verbatim>\<open>self.settings['name']\<close>). A method returns its outcome and the store it leaves: an
  exception does not undo what was written before it.
\<close>

record store =
  name :: string
  items :: "(string \<times> ndarray) list"

type_synonym 'a res = "(exn + 'a) \<times> store"

text \<open>What a read returns: an array, or the dict of a nested group.\<close>

datatype rval = RArr ndarray | RGroup "(string \<times> ndarray) list"

text \<open>The run-time class of \<^verbatim>\<open>self\<close>, which decides what \<^verbatim>\<open>self[key]\<close> calls.\<close>

datatype cls = Base2 | Domain

text \<open>
  \<^verbatim>\<open>Base2._count\<close>: the first axis of the first stored array whose key starts with
  \<open>element\<close>; \<^verbatim>\<open>None\<close> when there is none; \<^verbatim>\<open>shape[0]\<close> of a 0-d array raises.
\<close>

fun count_items :: "string \<Rightarrow> (string \<times> ndarray) list \<Rightarrow> exn + nat option" where
  "count_items element [] = Inr None"
| "count_items element ((k, v) # kvs) =
     (if startswith k element
      then (case shape v of [] \<Rightarrow> Inl IndexError | n # _ \<Rightarrow> Inr (Some n))
      else count_items element kvs)"

definition base2_count :: "store \<Rightarrow> string \<Rightarrow> exn + nat option" where
  "base2_count s element = count_items element (items s)"

definition Np :: "store \<Rightarrow> exn + nat option" where
  "Np s = base2_count s ''pore''"

definition Nt :: "store \<Rightarrow> exn + nat option" where
  "Nt s = base2_count s ''throat''"

text \<open>
  \<^verbatim>\<open>self.update({key: value})\<close>. The array is stored as a value: that the code stores the
  very object it was given, so that two keys can come to share one array, is outside
  the model.
\<close>

definition dict_store :: "store \<Rightarrow> string \<Rightarrow> ndarray \<Rightarrow> store" where
  "dict_store s key a = s\<lparr>items := dict_update key a (items s)\<rparr>"

text \<open>
  \<^verbatim>\<open>Base2.__setitem__\<close> from "Enfore correct dict naming" on, for a value that is neither
  \<^verbatim>\<open>None\<close> nor a dict and has been converted to the array \<open>a\<close>.
\<close>

definition base2_write :: "store \<Rightarrow> string \<Rightarrow> string \<Rightarrow> ndarray \<Rightarrow> unit res" where
  "base2_write s key element a =
     (if element \<notin> {''pore'', ''throat''} then (Inl NamingError, s)
      else if key \<in> {''pore.coords'', ''throat.conns''} then (Inr (), dict_store s key a)
      else
        (case base2_count s element of
           Inl e \<Rightarrow> (Inl e, s)
         | Inr None \<Rightarrow> (Inr (), dict_store s key a)
         | Inr (Some n) \<Rightarrow>
             (case shape a of
                [] \<Rightarrow> (Inl IndexError, s)
              | l # _ \<Rightarrow>
                  if l = 1 then
                    (case ones_times n a of
                       Inl e \<Rightarrow> (Inl e, s)
                     | Inr b \<Rightarrow> (Inr (), dict_store s key b))
                  else if l = n then (Inr (), dict_store s key a)
                  else (Inl (LengthError key), s))))"

text \<open>\<^verbatim>\<open>vals[locs]\<close> and \<^verbatim>\<open>vals[locs] = value\<close> on what two reads returned.\<close>

fun py_index :: "rval \<Rightarrow> rval \<Rightarrow> exn + rval" where
  "py_index (RArr a) (RArr m) = map_sum id RArr (mask_get a m)"
| "py_index (RArr a) (RGroup g) = Inl IndexError"
| "py_index (RGroup g) locs = Inl TypeError"

fun py_assign :: "rval \<Rightarrow> rval \<Rightarrow> bool \<Rightarrow> pyval \<Rightarrow> exn + ndarray" where
  "py_assign (RArr a) (RArr m) boxed value = mask_set a m boxed value"
| "py_assign (RArr a) (RGroup g) boxed value = Inl IndexError"
| "py_assign (RGroup g) locs boxed value = Inl TypeError"

text \<open>\<^verbatim>\<open>np.array(value)\<close> in \<^verbatim>\<open>Domain.__setitem__\<close>: only its shape and whether its dtype is bool are used.\<close>

fun np_array_shape :: "pyval \<Rightarrow> nat list" where
  "np_array_shape (PArr v) = shape v"
| "np_array_shape value = []"

fun np_array_is_bool :: "pyval \<Rightarrow> bool" where
  "np_array_is_bool (PArr v) = (dtype v = DBool)"
| "np_array_is_bool (PScalar x) = (dtype_of x = DBool)"
| "np_array_is_bool value = False"

text \<open>
  The four methods. The first number is the call depth that is left: every call takes
  one, and at depth 0 the interpreter raises \<^verbatim>\<open>RecursionError\<close>. \<open>base2_setitem cls\<close> and
  \<open>base2_getitem cls\<close> are the methods of \<^verbatim>\<open>Base2\<close> running on an object of class \<open>cls\<close>:
  where they say \<^verbatim>\<open>self[...]\<close>, a \<^verbatim>\<open>Domain\<close> object enters \<^verbatim>\<open>Domain\<close>'s methods.
  \<open>setitem_each\<close> is the loop over the entries of a dict value.
\<close>

function base2_setitem :: "cls \<Rightarrow> nat \<Rightarrow> store \<Rightarrow> string \<Rightarrow> pyval \<Rightarrow> unit res"
  and setitem_each :: "cls \<Rightarrow> nat \<Rightarrow> store \<Rightarrow> string \<Rightarrow> (string \<times> pyval) list \<Rightarrow> unit res"
  and base2_getitem :: "cls \<Rightarrow> nat \<Rightarrow> store \<Rightarrow> string \<Rightarrow> rval res"
  and domain_getitem :: "nat \<Rightarrow> store \<Rightarrow> string \<Rightarrow> rval res"
  and domain_setitem :: "nat \<Rightarrow> store \<Rightarrow> string \<Rightarrow> pyval \<Rightarrow> unit res"
where
  "base2_setitem cls 0 s key value = (Inl RecursionError, s)"
| "base2_setitem cls (Suc d) s key PNone = (Inr (), s)"
| "base2_setitem cls (Suc d) s key (PDict kvs) =
     (case str_split1 CHR ''.'' key of
        [element, prop] \<Rightarrow> setitem_each cls d s key kvs
      | _ \<Rightarrow> (Inl ValueError, s))"
| "base2_setitem cls (Suc d) s key (PScalar x) =
     (case str_split1 CHR ''.'' key of
        [element, prop] \<Rightarrow> base2_write s key element (np_array_ndmin1 x)
      | _ \<Rightarrow> (Inl ValueError, s))"
| "base2_setitem cls (Suc d) s key (PArr a) =
     (case str_split1 CHR ''.'' key of
        [element, prop] \<Rightarrow> base2_write s key element a
      | _ \<Rightarrow> (Inl ValueError, s))"
| "setitem_each cls d s key [] = (Inr (), s)"
| "setitem_each cls d s key ((k, v) # kvs) =
     (case (case cls of Base2 \<Rightarrow> base2_setitem Base2 d s (key @ ''.'' @ k) v
                      | Domain \<Rightarrow> domain_setitem d s (key @ ''.'' @ k) v) of
        (Inl e, s1) \<Rightarrow> (Inl e, s1)
      | (Inr _, s1) \<Rightarrow> setitem_each cls d s1 key kvs)"
| "base2_getitem cls 0 s key = (Inl RecursionError, s)"
| "base2_getitem cls (Suc d) s key =
     (case str_split1 CHR ''.'' key of
        [element, prop] \<Rightarrow>
          (case map_of (items s) key of
             Some a \<Rightarrow> (Inr (RArr a), s)
           | None \<Rightarrow>
               if str_split CHR ''.'' key ! 1 = name s then
                 (case Np s of
                    Inl e \<Rightarrow> (Inl e, s)
                  | Inr np \<Rightarrow>
                      (case (case cls of
                               Base2 \<Rightarrow> base2_setitem Base2 d s (''pore.'' @ name s) (PArr (np_ones_bool np))
                             | Domain \<Rightarrow> domain_setitem d s (''pore.'' @ name s) (PArr (np_ones_bool np))) of
                         (Inl e, s1) \<Rightarrow> (Inl e, s1)
                       | (Inr _, s1) \<Rightarrow>
                           (case Nt s1 of
                              Inl e \<Rightarrow> (Inl e, s1)
                            | Inr nt \<Rightarrow>
                                (case (case cls of
                                         Base2 \<Rightarrow> base2_setitem Base2 d s1 (''throat.'' @ name s1) (PArr (np_ones_bool nt))
                                       | Domain \<Rightarrow> domain_setitem d s1 (''throat.'' @ name s1) (PArr (np_ones_bool nt))) of
                                   (Inl e, s2) \<Rightarrow> (Inl e, s2)
                                 | (Inr _, s2) \<Rightarrow>
                                     (case cls of
                                        Base2 \<Rightarrow> base2_getitem Base2 d s2 key
                                      | Domain \<Rightarrow> domain_getitem d s2 key)))))
               else
                 (let vals = filter (\<lambda>(k, v). startswith k (key @ ''.'')) (items s)
                  in if length vals > 0 then (Inr (RGroup vals), s) else (Inl (KeyError key), s)))
      | _ \<Rightarrow> (Inl ValueError, s))"
| "domain_getitem 0 s key = (Inl RecursionError, s)"
| "domain_getitem (Suc d) s key =
     (if CHR ''@'' \<in> set key then
        (case str_split1 CHR ''.'' (str_split CHR ''@'' key ! 0) of
           [element, prop] \<Rightarrow>
             (case base2_getitem Domain d s
                     (element @ ''.'' @ last (str_split CHR ''.'' (str_split CHR ''@'' key ! 1))) of
                (Inl e, s1) \<Rightarrow> (Inl e, s1)
              | (Inr locs, s1) \<Rightarrow>
                  (case base2_getitem Domain d s1 (element @ ''.'' @ prop) of
                     (Inl e, s2) \<Rightarrow> (Inl e, s2)
                   | (Inr vals, s2) \<Rightarrow> (py_index vals locs, s2)))
         | _ \<Rightarrow> (Inl ValueError, s))
      else base2_getitem Domain d s key)"
| "domain_setitem 0 s key value = (Inl RecursionError, s)"
| "domain_setitem (Suc d) s key value =
     (if CHR ''@'' \<in> set key then
        (case str_split1 CHR ''.'' (str_split CHR ''@'' key ! 0) of
           [element, prop] \<Rightarrow>
             (case base2_getitem Domain d s
                     (element @ ''.'' @ last (str_split CHR ''.'' (str_split CHR ''@'' key ! 1))) of
                (Inl e, s1) \<Rightarrow> (Inl e, s1)
              | (Inr locs, s1) \<Rightarrow>
                  (case domain_getitem d s1 (element @ ''.'' @ prop) of
                     (Inr vals, s2) \<Rightarrow>
                       (case py_assign vals locs False value of
                          Inl e \<Rightarrow> (Inl e, s2)
                        | Inr a \<Rightarrow>
                            domain_setitem d (dict_store s2 (element @ ''.'' @ prop) a)
                              (element @ ''.'' @ prop) (PArr a))
                   | (Inl (KeyError k), s2) \<Rightarrow>
                       (case Np s2 of
                          Inl e \<Rightarrow> (Inl e, s2)
                        | Inr None \<Rightarrow> (Inl TypeError, s2)
                        | Inr (Some np) \<Rightarrow>
                            (case base2_setitem Domain d s2 (element @ ''.'' @ prop)
                                    (PArr (if np_array_is_bool value
                                           then np_full DBool (np # tl (np_array_shape value)) (PBool False)
                                           else np_full DFloat (np # tl (np_array_shape value)) PNaN)) of
                               (Inl e, s3) \<Rightarrow> (Inl e, s3)
                             | (Inr _, s3) \<Rightarrow>
                                 (case domain_getitem d s3 (element @ ''.'' @ prop) of
                                    (Inl e, s4) \<Rightarrow> (Inl e, s4)
                                  | (Inr vals, s4) \<Rightarrow>
                                      (case py_assign vals locs True value of
                                         Inl e \<Rightarrow> (Inl e, s4)
                                       | Inr a \<Rightarrow> (Inr (), dict_store s4 (element @ ''.'' @ prop) a)))))
                   | (Inl e, s2) \<Rightarrow> (Inl e, s2)))
         | _ \<Rightarrow> (Inl ValueError, s))
      else base2_setitem Domain d s key value)"
  by pat_completeness auto
termination
  by (relation "measures [\<lambda>x. case x of
        Inl (Inl (cls, d, s, key, value)) \<Rightarrow> 2 * d
      | Inl (Inr (cls, d, s, key, kvs)) \<Rightarrow> 2 * d + 1
      | Inr (Inl (cls, d, s, key)) \<Rightarrow> 2 * d
      | Inr (Inr (Inl (d, s, key))) \<Rightarrow> 2 * d
      | Inr (Inr (Inr (d, s, key, value))) \<Rightarrow> 2 * d,
      \<lambda>x. case x of Inl (Inr (cls, d, s, key, kvs)) \<Rightarrow> length kvs | _ \<Rightarrow> 0]") auto

text \<open>
  \<^verbatim>\<open>self[key] = value\<close> and \<^verbatim>\<open>self[key]\<close> as an object of class \<open>cls\<close> runs them: the
  dispatch that the four methods above write out.
\<close>

definition self_setitem :: "cls \<Rightarrow> nat \<Rightarrow> store \<Rightarrow> string \<Rightarrow> pyval \<Rightarrow> unit res" where
  "self_setitem cls d s key value =
     (case cls of Base2 \<Rightarrow> base2_setitem Base2 d s key value
                | Domain \<Rightarrow> domain_setitem d s key value)"

definition self_getitem :: "cls \<Rightarrow> nat \<Rightarrow> store \<Rightarrow> string \<Rightarrow> rval res" where
  "self_getitem cls d s key =
     (case cls of Base2 \<Rightarrow> base2_getitem Base2 d s key
                | Domain \<Rightarrow> domain_getitem d s key)"

text \<open>
  The array \<^verbatim>\<open>temp\<close> of \<^verbatim>\<open>Domain.__setitem__\<close>: \<^verbatim>\<open>np.zeros([self.Np, *value.shape[1:]], dtype=bool)\<close>,
  multiplied by NaN unless the value is boolean. It is the array that \<open>domain_setitem\<close>
  writes in its \<^verbatim>\<open>except\<close> branch.
\<close>

definition seed_array :: "nat \<Rightarrow> pyval \<Rightarrow> ndarray" where
  "seed_array np value =
     (if np_array_is_bool value
      then np_full DBool (np # tl (np_array_shape value)) (PBool False)
      else np_full DFloat (np # tl (np_array_shape value)) PNaN)"

text \<open>
  \<^verbatim>\<open>Base2.__delitem__\<close>: the key is removed from the dict; when it is not stored, the
  object is read under the key and every key of the group that the read returns is
  removed, in the group's order. An array has no \<^verbatim>\<open>keys\<close>, which is an \<^verbatim>\<open>AttributeError\<close>.
\<close>

fun del_each :: "store \<Rightarrow> string list \<Rightarrow> unit res" where
  "del_each s [] = (Inr (), s)"
| "del_each s (k # ks) =
     (if map_of (items s) k = None then (Inl (KeyError k), s)
      else del_each (s\<lparr>items := filter (\<lambda>(k', v). k' \<noteq> k) (items s)\<rparr>) ks)"

definition base2_delitem :: "cls \<Rightarrow> nat \<Rightarrow> store \<Rightarrow> string \<Rightarrow> unit res" where
  "base2_delitem cls d s key =
     (case d of
        0 \<Rightarrow> (Inl RecursionError, s)
      | Suc d' \<Rightarrow>
          if map_of (items s) key \<noteq> None
          then (Inr (), s\<lparr>items := filter (\<lambda>(k, v). k \<noteq> key) (items s)\<rparr>)
          else
            (case self_getitem cls d' s key of
               (Inl e, s1) \<Rightarrow> (Inl e, s1)
             | (Inr (RArr a), s1) \<Rightarrow> (Inl AttributeError, s1)
             | (Inr (RGroup g), s1) \<Rightarrow> del_each s1 (map fst g)))"

section \<open>The model registry: \<^verbatim>\<open>ModelMixin2\<close>\<close>

text \<open>
  A registered model is a callable with its regeneration mode and keyword arguments.
  The callable is a pure function of the store it is handed as \<^verbatim>\<open>target\<close>, of the
  \<^verbatim>\<open>domain\<close> argument (absent for a whole-collection model) and of the keyword
  arguments; it returns a value or raises.
\<close>

type_synonym kwargs = "(string \<times> pyval) list"

type_synonym model_fn = "store \<Rightarrow> string option \<Rightarrow> kwargs \<Rightarrow> exn + pyval"

record mspec =
  model :: model_fn
  regen_mode :: string
  kwargs :: kwargs

text \<open>
  Modelled from the spec: \<^verbatim>\<open>ModelsDict\<close>, the type of \<^verbatim>\<open>self.models\<close>, is imported from
  \<^verbatim>\<open>openpnm.core\<close> and is not part of the sources; it is taken as the ordered mapping
  from qualified names to model specifications that the spec describes, a dict in
  insertion order.

  The object is the store with its registry. \<open>calls\<close> is not a field of the Python
  object: it records, in order, the registry key of every model callable that has been
  invoked, so that "the model registered under this name was executed" can be stated.
\<close>

record obj =
  base :: store
  models :: "(string \<times> mspec) list"
  calls :: "string list"

type_synonym ores = "(exn + unit) \<times> obj"

definition add_model :: "obj \<Rightarrow> string \<Rightarrow> model_fn \<Rightarrow> string option \<Rightarrow> string \<Rightarrow> kwargs \<Rightarrow> obj" where
  "add_model g propname mdl domain regen kw =
     (let suffix = (case domain of None \<Rightarrow> [] | Some d \<Rightarrow> ''@'' @ last (str_split CHR ''.'' d))
      in g\<lparr>models := dict_update (propname @ suffix)
                        \<lparr>model = mdl, regen_mode = regen, kwargs = kw\<rparr> (models g)\<rparr>)"

text \<open>
  \<^verbatim>\<open>run_model\<close> with \<^verbatim>\<open>domain=None\<close> and no \<^verbatim>\<open>@\<close> in \<^verbatim>\<open>propname\<close>: the inner \<^verbatim>\<open>else\<close>
  branch.
\<close>

definition run_model_global :: "nat \<Rightarrow> obj \<Rightarrow> string \<Rightarrow> ores" where
  "run_model_global d g propname =
     (case str_split1 CHR ''.'' propname of
        [element, prop] \<Rightarrow>
          (case map_of (models g) propname of
             None \<Rightarrow> (Inl (KeyError propname), g)
           | Some m \<Rightarrow>
               (case model m (base g) None (kwargs m) of
                  Inl e \<Rightarrow> (Inl e, g\<lparr>calls := calls g @ [propname]\<rparr>)
                | Inr vals \<Rightarrow>
                    (case domain_setitem d (base g) propname vals of
                       (r, s1) \<Rightarrow> (r, g\<lparr>base := s1, calls := calls g @ [propname]\<rparr>))))
      | _ \<Rightarrow> (Inl ValueError, g))"

text \<open>\<^verbatim>\<open>run_model\<close> with a domain: the outer \<^verbatim>\<open>else\<close> branch.\<close>

definition run_model_domain :: "nat \<Rightarrow> obj \<Rightarrow> string \<Rightarrow> string \<Rightarrow> ores" where
  "run_model_domain d g propname0 domain0 =
     (let domain = last (str_split CHR ''.'' domain0) in
      case str_split1 CHR ''.'' (str_split CHR ''@'' propname0 ! 0) of
        [element, prop] \<Rightarrow>
          (let propname = element @ ''.'' @ prop in
           case map_of (models g) (propname @ ''@'' @ domain) of
             None \<Rightarrow> (Inl (KeyError (propname @ ''@'' @ domain)), g)
           | Some m \<Rightarrow>
               (let g1 = g\<lparr>calls := calls g @ [propname @ ''@'' @ domain]\<rparr> in
                case model m (base g) (Some (element @ ''.'' @ domain)) (kwargs m) of
                  Inl e \<Rightarrow> (Inl e, g1)
                | Inr vals \<Rightarrow>
                    (case (if propname \<in> set (map fst (items (base g))) then (Inr (), base g)
                           else
                             (case Np (base g) of
                                Inl e \<Rightarrow> (Inl e, base g)
                              | Inr n \<Rightarrow>
                                  (case vals of
                                     PArr v \<Rightarrow>
                                       (case n of
                                          None \<Rightarrow> (Inl TypeError, base g)
                                        | Some np \<Rightarrow>
                                            domain_setitem d (base g) propname
                                              (PArr (np_full DFloat (np # tl (shape v)) PNaN)))
                                   | _ \<Rightarrow> (Inl AttributeError, base g)))) of
                       (Inl e, s1) \<Rightarrow> (Inl e, g1\<lparr>base := s1\<rparr>)
                     | (Inr _, s1) \<Rightarrow>
                         (case domain_getitem d s1 propname of
                            (Inl e, s2) \<Rightarrow> (Inl e, g1\<lparr>base := s2\<rparr>)
                          | (Inr a, s2) \<Rightarrow>
                              (case domain_getitem d s2 (element @ ''.'' @ domain) of
                                 (Inl e, s3) \<Rightarrow> (Inl e, g1\<lparr>base := s3\<rparr>)
                               | (Inr locs, s3) \<Rightarrow>
                                   (case py_assign a locs False vals of
                                      Inl e \<Rightarrow> (Inl e, g1\<lparr>base := s3\<rparr>)
                                    | Inr a' \<Rightarrow>
                                        (Inr (), g1\<lparr>base := dict_store s3 propname a'\<rparr>)))))))
      | _ \<Rightarrow> (Inl ValueError, g))"

text \<open>
  The loop of \<^verbatim>\<open>run_model\<close> over \<^verbatim>\<open>self.models.keys()\<close>. Its recursive call passes
  \<^verbatim>\<open>item.split('@')[-1]\<close>, a string, as the domain, and so always enters the branch
  above.
\<close>

fun run_items :: "nat \<Rightarrow> obj \<Rightarrow> string \<Rightarrow> string list \<Rightarrow> ores" where
  "run_items d g propname [] = (Inr (), g)"
| "run_items d g propname (item # rest) =
     (if startswith item propname then
        (case run_model_domain d g propname (last (str_split CHR ''@'' item)) of
           (Inl e, g1) \<Rightarrow> (Inl e, g1)
         | (Inr _, g1) \<Rightarrow> run_items d g1 propname rest)
      else run_items d g propname rest)"

definition run_model :: "nat \<Rightarrow> obj \<Rightarrow> string \<Rightarrow> string option \<Rightarrow> ores" where
  "run_model d g propname domain =
     (case domain of
        None \<Rightarrow>
          if CHR ''@'' \<in> set propname then run_items d g propname (map fst (models g))
          else run_model_global d g propname
      | Some dm \<Rightarrow> run_model_domain d g propname dm)"

fun regen_items :: "nat \<Rightarrow> obj \<Rightarrow> string list \<Rightarrow> ores" where
  "regen_items d g [] = (Inr (), g)"
| "regen_items d g (item # rest) =
     (case run_model d g item None of
        (Inl e, g1) \<Rightarrow> (Inl e, g1)
      | (Inr _, g1) \<Rightarrow> regen_items d g1 rest)"

definition regenerate_models :: "nat \<Rightarrow> obj \<Rightarrow> ores" where
  "regenerate_models d g = regen_items d g (map fst (models g))"

section \<open>An example network\<close>

text \<open>
  The network of the module's own script: nine pores on a 3 by 3 grid with twelve
  throats, in a store named \<^verbatim>\<open>bob\<close>, with the label \<^verbatim>\<open>pore.left\<close> on the pores 0, 1, 2
  and the label \<^verbatim>\<open>throat.left\<close> on the throats 0, 1.
\<close>

definition ex_left :: ndarray where
  "ex_left = \<lparr>dtype = DBool, shape = [9],
     data = map PBool [True, True, True, False, False, False, False, False, False]\<rparr>"

definition ex_tleft :: ndarray where
  "ex_tleft = \<lparr>dtype = DBool, shape = [12],
     data = map PBool [True, True, False, False, False, False,
                       False, False, False, False, False, False]\<rparr>"

definition ex_store :: store where
  "ex_store = \<lparr>name = ''bob'',
     items = [(''pore.coords'', np_full DFloat [9, 3] (PFloat 0)),
              (''throat.conns'', np_full DFloat [12, 2] (PFloat 0)),
              (''pore.left'', ex_left),
              (''throat.left'', ex_tleft)]\<rparr>"

text \<open>
  The same network with a second label, \<^verbatim>\<open>pore.right\<close> on the pores 6, 7, 8, after
  \<^verbatim>\<open>pore.seed@left\<close> has been written with the values 1, 2, 3.
\<close>

definition ex_right :: ndarray where
  "ex_right = \<lparr>dtype = DBool, shape = [9],
     data = map PBool [False, False, False, False, False, False, True, True, True]\<rparr>"

definition ex_seeded :: store where
  "ex_seeded = \<lparr>name = ''bob'',
     items = [(''pore.coords'', np_full DFloat [9, 3] (PFloat 0)),
              (''throat.conns'', np_full DFloat [12, 2] (PFloat 0)),
              (''pore.left'', ex_left),
              (''throat.left'', ex_tleft),
              (''pore.right'', ex_right),
              (''pore.seed'', \<lparr>dtype = DFloat, shape = [9],
                 data = [PFloat 1, PFloat 2, PFloat 3, PNaN, PNaN, PNaN, PNaN, PNaN, PNaN]\<rparr>)]\<rparr>"

definition ex_leftmost :: ndarray where
  "ex_leftmost = \<lparr>dtype = DBool, shape = [9],
     data = map PBool [True, False, False, False, False, False, False, False, False]\<rparr>"

text \<open>A store with one pore and two throats.\<close>

definition ex_one_pore :: store where
  "ex_one_pore = \<lparr>name = ''bob'',
     items = [(''pore.coords'', np_full DFloat [1, 3] (PFloat 0)),
              (''throat.conns'', np_full DFloat [2, 2] (PFloat 0)),
              (''throat.left'', \<lparr>dtype = DBool, shape = [2], data = [PBool True, PBool False]\<rparr>)]\<rparr>"

text \<open>
  Nine pores whose \<^verbatim>\<open>pore.coords\<close> has five rows: every write that builds this store
  succeeds, \<^verbatim>\<open>pore.coords\<close> being stored unchecked.
\<close>

definition ex_mixed :: store where
  "ex_mixed = \<lparr>name = ''bob'',
     items = [(''pore.a'', np_full DFloat [9] (PFloat 0)),
              (''pore.coords'', np_full DFloat [5, 3] (PFloat 0)),
              (''pore.b'', np_full DFloat [9] (PFloat 0))]\<rparr>"

text \<open>
  A model in the manner of the module's \<^verbatim>\<open>random_seed\<close>: one value for every entity of
  the domain, the draw fixed at one half.
\<close>

definition ex_seed :: model_fn where
  "ex_seed target domain kw =
     (case domain of
        None \<Rightarrow> Inl TypeError
      | Some dm \<Rightarrow>
          (case map_of (items target) dm of
             None \<Rightarrow> Inl (KeyError dm)
           | Some inds \<Rightarrow>
               Inr (PArr (np_full DFloat [length (filter id (mask_bits inds))] (PFloat (1 / 2))))))"

definition ex_spec :: mspec where
  "ex_spec = \<lparr>model = ex_seed, regen_mode = ''normal'', kwargs = []\<rparr>"

text \<open>
  The example network with a seed model registered for the throats of \<^verbatim>\<open>left\<close> and one
  for the pores of \<^verbatim>\<open>left\<close>.
\<close>

definition ex_throat_obj :: obj where
  "ex_throat_obj = \<lparr>base = ex_store,
     models = [(''throat.seed@left'', ex_spec), (''pore.seed@left'', ex_spec)], calls = []\<rparr>"

text \<open>
  The example network with a seed model for the pores of \<^verbatim>\<open>left\<close> and a whole-collection
  model that returns the scalar 1.
\<close>

definition ex_one :: model_fn where
  "ex_one target domain kw = Inr (PScalar (PFloat 1))"

definition ex_plain_obj :: obj where
  "ex_plain_obj = \<lparr>base = ex_store,
     models = [(''pore.seed@left'', ex_spec),
               (''pore.one'', \<lparr>model = ex_one, regen_mode = ''normal'', kwargs = []\<rparr>)],
     calls = []\<rparr>"

text \<open>
  The example network with a second label, \<^verbatim>\<open>pore.leftmost\<close>, and a seed model
  registered on each of the two pore labels.
\<close>

definition ex_obj :: obj where
  "ex_obj = \<lparr>base = dict_store ex_store ''pore.leftmost'' ex_leftmost,
     models = [(''pore.seed@left'', ex_spec), (''pore.seed@leftmost'', ex_spec)],
     calls = []\<rparr>"

section \<open>Predicates of the statements\<close>

text \<open>Every stored key starts with \<^verbatim>\<open>pore.\<close> or \<^verbatim>\<open>throat.\<close> (the spec's I1).\<close>

definition keys_named :: "store \<Rightarrow> bool" where
  "keys_named s =
     list_all (\<lambda>(k, v). startswith k ''pore.'' \<or> startswith k ''throat.'') (items s)"

text \<open>
  The spec's I2 for one kind: when the kind's count is \<open>n\<close>, every array stored under
  the kind, \<^verbatim>\<open>pore.coords\<close> and \<^verbatim>\<open>throat.conns\<close> apart, has leading length \<open>n\<close>.
\<close>

definition lengths_agree :: "store \<Rightarrow> string \<Rightarrow> bool" where
  "lengths_agree s kind =
     (case base2_count s kind of
        Inr (Some n) \<Rightarrow>
          list_all (\<lambda>(k, v). startswith k kind \<longrightarrow>
                      k = ''pore.coords'' \<or> k = ''throat.conns'' \<or>
                      (case shape v of [] \<Rightarrow> False | l # _ \<Rightarrow> l = n)) (items s)
      | _ \<Rightarrow> True)"

definition lengths_ok :: "store \<Rightarrow> bool" where
  "lengths_ok s = (lengths_agree s ''pore'' \<and> lengths_agree s ''throat'')"

text \<open>
  A value whose writes stay clear of the two unchecked keys and of arrays with more
  than one axis: under \<open>key\<close>, \<^verbatim>\<open>None\<close>, or a scalar or an array of at most one axis where
  \<open>key\<close> is neither \<^verbatim>\<open>pore.coords\<close> nor \<^verbatim>\<open>throat.conns\<close>, or a dict each of whose entries is
  such a value under the key that \<^verbatim>\<open>Base2.__setitem__\<close> forms for it.
\<close>

fun leaf_ok :: "string \<Rightarrow> pyval \<Rightarrow> bool" where
  "leaf_ok key PNone = True"
| "leaf_ok key (PScalar x) = (key \<noteq> ''pore.coords'' \<and> key \<noteq> ''throat.conns'')"
| "leaf_ok key (PArr a) =
     (key \<noteq> ''pore.coords'' \<and> key \<noteq> ''throat.conns'' \<and> length (shape a) \<le> 1)"
| "leaf_ok key (PDict kvs) = list_all (\<lambda>(k, v). leaf_ok (key @ ''.'' @ k) v) kvs"

text \<open>
  The count of the kind can be read, and every array stored under the kind,
  \<^verbatim>\<open>pore.coords\<close> and \<^verbatim>\<open>throat.conns\<close> included, has it as leading length.
\<close>

definition lengths_uniform :: "store \<Rightarrow> string \<Rightarrow> bool" where
  "lengths_uniform s kind =
     (case base2_count s kind of
        Inr (Some n) \<Rightarrow>
          list_all (\<lambda>(k, v). startswith k kind \<longrightarrow>
                      (case shape v of [] \<Rightarrow> False | l # _ \<Rightarrow> l = n)) (items s)
      | Inr None \<Rightarrow> True
      | Inl e \<Rightarrow> False)"

text \<open>
  A registry name as \<^verbatim>\<open>add_model\<close> forms it from a property name without \<^verbatim>\<open>@\<close>: at
  most one \<^verbatim>\<open>@\<close>, and no dot after it.
\<close>

definition plain_name :: "string \<Rightarrow> bool" where
  "plain_name item =
     (case str_split CHR ''@'' item of
        [p] \<Rightarrow> True
      | [p, dm] \<Rightarrow> CHR ''.'' \<notin> set dm
      | _ \<Rightarrow> False)"

text \<open>
  The registry key that \<^verbatim>\<open>run_model\<close> looks up in its domain branch:
  \<^verbatim>\<open>propname+'@'+domain\<close> after both have been normalised.
\<close>

definition lookup_name :: "string \<Rightarrow> string \<Rightarrow> string" where
  "lookup_name propname domain =
     str_split CHR ''@'' propname ! 0 @ ''@'' @ last (str_split CHR ''.'' domain)"

section \<open>Facts about the string operations\<close>

lemma str_split_nonempty: "str_split c s \<noteq> []"
  by (induction s) (auto split: list.splits)

lemma str_split_first: "str_split c s ! 0 = takeWhile (\<lambda>x. x \<noteq> c) s"
  using str_split_nonempty [of c] by (induction s) (auto split: list.splits)

lemma str_split_first_no_sep: "c \<notin> set (str_split c s ! 0)"
  by (auto simp: str_split_first dest: set_takeWhileD)

lemma str_split_no_sep: "c \<notin> set s \<Longrightarrow> str_split c s = [s]"
  by (induction s) auto

lemma str_split1_no_sep: "c \<notin> set s \<Longrightarrow> str_split1 c s = [s]"
  by (simp add: str_split1_def)

lemma str_split1_two:
  assumes "str_split1 c s = [a, b]"
  shows "s = a @ c # b" and "c \<notin> set a" and "c \<in> set s"
proof -
  from assms have in_s: "c \<in> set s" and a: "a = takeWhile (\<lambda>x. x \<noteq> c) s"
    and b: "b = tl (dropWhile (\<lambda>x. x \<noteq> c) s)"
    by (auto simp: str_split1_def split: if_splits)
  show "c \<in> set s" by (rule in_s)
  show "c \<notin> set a" unfolding a by (auto dest: set_takeWhileD)
  from in_s have "dropWhile (\<lambda>x. x \<noteq> c) s \<noteq> []" by simp
  moreover from this have "hd (dropWhile (\<lambda>x. x \<noteq> c) s) = c"
    using hd_dropWhile [of "\<lambda>x. x \<noteq> c" s] by simp
  ultimately have "dropWhile (\<lambda>x. x \<noteq> c) s = c # b"
    unfolding b by (cases "dropWhile (\<lambda>x. x \<noteq> c) s") auto
  then show "s = a @ c # b"
    unfolding a using takeWhile_dropWhile_id [of "\<lambda>x. x \<noteq> c" s] by simp
qed

lemma str_split_append: "c \<notin> set a \<Longrightarrow> str_split c (a @ c # b) = a # str_split c b"
  by (induction a) auto

lemma second_segment:
  assumes "CHR ''.'' \<notin> set e" and "CHR ''.'' \<notin> set nm"
  shows "str_split CHR ''.'' (e @ CHR ''.'' # nm) ! 1 = nm"
  using assms by (simp add: str_split_append str_split_no_sep)

lemma str_split_single: "str_split c s = [b] \<Longrightarrow> s = b \<and> c \<notin> set s"
proof (induction s arbitrary: b)
  case Nil
  then show ?case by simp
next
  case (Cons x xs)
  show ?case
  proof (cases "x = c")
    case True
    with Cons.prems show ?thesis using str_split_nonempty [of c xs] by simp
  next
    case False
    with Cons.prems obtain w where "str_split c xs = [w]" "b = x # w"
      using str_split_nonempty [of c xs] by (auto split: list.splits)
    with Cons.IH [of w] False show ?thesis by auto
  qed
qed

lemma str_split_two:
  assumes "str_split c s = [a, b]"
  shows "s = a @ c # b" and "c \<notin> set a" and "c \<notin> set b"
proof -
  have a: "a = takeWhile (\<lambda>x. x \<noteq> c) s"
    using str_split_first [of c s] assms by simp
  then show na: "c \<notin> set a" by (auto dest: set_takeWhileD)
  have "c \<in> set s"
    using assms str_split_no_sep [of c s] by auto
  then have "str_split1 c s = [a, tl (dropWhile (\<lambda>x. x \<noteq> c) s)]"
    by (simp add: str_split1_def a)
  then have s: "s = a @ c # tl (dropWhile (\<lambda>x. x \<noteq> c) s)" by (rule str_split1_two(1))
  then have "str_split c s = a # str_split c (tl (dropWhile (\<lambda>x. x \<noteq> c) s))"
    using str_split_append [OF na] by metis
  with assms have "str_split c (tl (dropWhile (\<lambda>x. x \<noteq> c) s)) = [b]" by simp
  from str_split_single [OF this] s show "s = a @ c # b" and "c \<notin> set b" by auto
qed

lemma last_split_no_sep: "c \<notin> set (last (str_split c s))"
proof (induction s)
  case Nil
  then show ?case by simp
next
  case (Cons x xs)
  then show ?case
    using str_split_nonempty [of c xs] by (auto split: list.splits)
qed

lemma startswith_append: "startswith (p @ r) p"
  by (induction p) auto

lemma startswith_iff: "startswith s p \<longleftrightarrow> (\<exists>r. s = p @ r)"
proof (induction s p rule: startswith.induct)
  case (3 c cs p ps)
  then show ?case by auto
qed auto

lemma startswith_takeWhile:
  assumes "startswith k (e @ c # r)" and "c \<notin> set e"
  shows "takeWhile (\<lambda>x. x \<noteq> c) k = e"
proof -
  from assms(1) obtain t where "k = e @ c # r @ t" by (auto simp: startswith_iff)
  moreover from assms(2) have "\<And>x. x \<in> set e \<Longrightarrow> x \<noteq> c" by auto
  ultimately show ?thesis by simp
qed

lemma named_key_element:
  assumes "startswith k ''pore.'' \<or> startswith k ''throat.''"
  shows "takeWhile (\<lambda>x. x \<noteq> CHR ''.'') k = ''pore''
       \<or> takeWhile (\<lambda>x. x \<noteq> CHR ''.'') k = ''throat''"
  using assms startswith_takeWhile [of k "''pore''" "CHR ''.''" "[]"]
    startswith_takeWhile [of k "''throat''" "CHR ''.''" "[]"] by auto

section \<open>Facts about the dict\<close>

lemma map_of_dict_update: "map_of (dict_update k v kvs) = (map_of kvs)(k \<mapsto> v)"
  by (induction kvs) (auto simp: fun_eq_iff)

lemma list_all_dict_update:
  "list_all P kvs \<Longrightarrow> P (k, v) \<Longrightarrow> list_all P (dict_update k v kvs)"
  by (induction kvs) auto

lemma count_items_None: "count_items e kvs = Inr None \<longleftrightarrow> (\<forall>(k, v) \<in> set kvs. \<not> startswith k e)"
  by (induction kvs) (auto split: list.splits if_splits)

lemma count_update_other:
  "\<not> startswith k e \<Longrightarrow> count_items e (dict_update k a kvs) = count_items e kvs"
  by (induction kvs) auto

lemma count_update_same:
  "count_items e kvs = Inr (Some n) \<Longrightarrow> shape a = n # tr
   \<Longrightarrow> count_items e (dict_update k a kvs) = Inr (Some n)"
  by (induction kvs) (auto split: list.splits if_splits)

section \<open>Reads that miss\<close>

lemma lookup_miss:
  assumes "str_split1 CHR ''.'' key = [element, rest]"
    and "map_of (items s) key = None"
    and "str_split CHR ''.'' key ! 1 \<noteq> name s"
    and "filter (\<lambda>(k, v). startswith k (key @ ''.'')) (items s) = []"
  shows "base2_getitem cls (Suc d) s key = (Inl (KeyError key), s)"
  using assms by simp

lemma foreign_key_absent:
  assumes "keys_named s" and "str_split1 CHR ''.'' key = [element, rest]"
    and "element \<noteq> ''pore''" and "element \<noteq> ''throat''"
  shows "map_of (items s) key = None"
    and "filter (\<lambda>(k, v). startswith k (key @ ''.'')) (items s) = []"
proof -
  have key: "key = element @ CHR ''.'' # rest" and nodot: "CHR ''.'' \<notin> set element"
    using str_split1_two [OF assms(2)] by auto
  have *: "\<not> startswith k key" if "(k, v) \<in> set (items s)" for k v
  proof
    assume sw: "startswith k key"
    from that assms(1) have "startswith k ''pore.'' \<or> startswith k ''throat.''"
      by (auto simp: keys_named_def list_all_iff)
    then have "takeWhile (\<lambda>x. x \<noteq> CHR ''.'') k = ''pore''
             \<or> takeWhile (\<lambda>x. x \<noteq> CHR ''.'') k = ''throat''"
      by (rule named_key_element)
    moreover have "takeWhile (\<lambda>x. x \<noteq> CHR ''.'') k = element"
      using sw nodot unfolding key by (rule startswith_takeWhile)
    ultimately show False using assms(3,4) by auto
  qed
  show "map_of (items s) key = None"
  proof (rule ccontr)
    assume "map_of (items s) key \<noteq> None"
    then obtain v where "(key, v) \<in> set (items s)" by (auto dest: map_of_SomeD)
    from * [OF this] show False using startswith_append [of key "[]"] by simp
  qed
  show "filter (\<lambda>(k, v). startswith k (key @ ''.'')) (items s) = []"
  proof -
    have "\<not> startswith k (key @ ''.'')" if "(k, v) \<in> set (items s)" for k v
      using * [OF that] by (auto simp: startswith_iff)
    then show ?thesis by (auto simp: filter_empty_conv)
  qed
qed

section \<open>Malformed keys\<close>

lemma no_dot_fails:
  assumes nd: "CHR ''.'' \<notin> set key"
  shows "base2_getitem cls (Suc d) s key = (Inl ValueError, s)"
    and "domain_getitem (Suc (Suc d)) s key = (Inl ValueError, s)"
    and "val \<noteq> PNone \<Longrightarrow> base2_setitem cls (Suc d) s key val = (Inl ValueError, s)"
    and "val \<noteq> PNone \<Longrightarrow> domain_setitem (Suc (Suc d)) s key val = (Inl ValueError, s)"
proof -
  from nd have k1: "str_split1 CHR ''.'' key = [key]" by (rule str_split1_no_sep)
  have "CHR ''.'' \<notin> set (str_split CHR ''@'' key ! 0)"
    using nd by (auto simp: str_split_first dest: set_takeWhileD)
  then have k2: "str_split1 CHR ''.'' (str_split CHR ''@'' key ! 0) = [str_split CHR ''@'' key ! 0]"
    by (rule str_split1_no_sep)
  have g: "base2_getitem c (Suc d) s key = (Inl ValueError, s)" for c
    by (simp add: k1)
  have st: "val \<noteq> PNone \<Longrightarrow> base2_setitem c (Suc d) s key val = (Inl ValueError, s)" for c
    by (cases val) (simp_all add: k1)
  show "base2_getitem cls (Suc d) s key = (Inl ValueError, s)" by (rule g)
  show "domain_getitem (Suc (Suc d)) s key = (Inl ValueError, s)" using g by (simp add: k2)
  show "val \<noteq> PNone \<Longrightarrow> base2_setitem cls (Suc d) s key val = (Inl ValueError, s)"
    by (rule st)
  show "val \<noteq> PNone \<Longrightarrow> domain_setitem (Suc (Suc d)) s key val = (Inl ValueError, s)"
    using st by (simp add: k2)
qed

lemma foreign_element_fails:
  assumes "str_split1 CHR ''.'' key = [element, rest]"
    and "element \<noteq> ''pore''" and "element \<noteq> ''throat''"
  shows "base2_setitem cls (Suc d) s key (PScalar x) = (Inl NamingError, s)"
    and "base2_setitem cls (Suc d) s key (PArr a) = (Inl NamingError, s)"
    and "keys_named s \<Longrightarrow> str_split CHR ''.'' key ! 1 \<noteq> name s
         \<Longrightarrow> base2_getitem cls (Suc d) s key = (Inl (KeyError key), s)"
  using assms foreign_key_absent [of s key element rest]
  by (auto simp: base2_write_def)

lemma domain_at_no_dot:
  assumes at: "CHR ''@'' \<in> set key"
    and nd: "CHR ''.'' \<notin> set (str_split CHR ''@'' key ! 0)"
  shows "domain_getitem (Suc d) s key = (Inl ValueError, s)"
    and "domain_setitem (Suc d) s key val = (Inl ValueError, s)"
proof -
  from nd have k: "str_split1 CHR ''.'' (str_split CHR ''@'' key ! 0) = [str_split CHR ''@'' key ! 0]"
    by (rule str_split1_no_sep)
  show "domain_getitem (Suc d) s key = (Inl ValueError, s)" using at by (simp add: k)
  show "domain_setitem (Suc d) s key val = (Inl ValueError, s)" using at by (simp add: k)
qed

lemma foreign_label_miss:
  assumes sp: "str_split1 CHR ''.'' pre = [element, rest]"
    and e1: "element \<noteq> ''pore''" and e2: "element \<noteq> ''throat''"
    and kn: "keys_named s"
    and nm: "last (str_split CHR ''.'' suffix) \<noteq> name s"
  shows "base2_getitem cls (Suc d) s (element @ ''.'' @ last (str_split CHR ''.'' suffix))
         = (Inl (KeyError (element @ ''.'' @ last (str_split CHR ''.'' suffix))), s)"
proof -
  define dm where "dm = last (str_split CHR ''.'' suffix)"
  have nd: "CHR ''.'' \<notin> set dm" unfolding dm_def by (rule last_split_no_sep)
  have ne: "CHR ''.'' \<notin> set element" using sp by (rule str_split1_two(2))
  have l1: "str_split1 CHR ''.'' (element @ ''.'' @ dm) = [element, dm]"
  proof -
    from ne have "\<And>x. x \<in> set element \<Longrightarrow> x \<noteq> CHR ''.''" by auto
    then show ?thesis by (simp add: str_split1_def)
  qed
  have l2: "str_split CHR ''.'' (element @ ''.'' @ dm) ! 1 = dm"
    using second_segment [OF ne nd] by simp
  have "base2_getitem cls (Suc d) s (element @ ''.'' @ dm) = (Inl (KeyError (element @ ''.'' @ dm)), s)"
  proof (rule lookup_miss [OF l1])
    show "map_of (items s) (element @ ''.'' @ dm) = None"
      using kn l1 e1 e2 by (rule foreign_key_absent(1))
    show "str_split CHR ''.'' (element @ ''.'' @ dm) ! 1 \<noteq> name s"
      using nm l2 unfolding dm_def by simp
    show "filter (\<lambda>(k, v). startswith k ((element @ ''.'' @ dm) @ ''.'')) (items s) = []"
      using kn l1 e1 e2 by (rule foreign_key_absent(2))
  qed
  then show ?thesis unfolding dm_def .
qed

lemma domain_at_foreign:
  assumes at: "CHR ''@'' \<in> set key"
    and sp: "str_split1 CHR ''.'' (str_split CHR ''@'' key ! 0) = [element, rest]"
    and e1: "element \<noteq> ''pore''" and e2: "element \<noteq> ''throat''"
    and kn: "keys_named s"
    and nm: "last (str_split CHR ''.'' (str_split CHR ''@'' key ! 1)) \<noteq> name s"
  shows "domain_getitem (Suc (Suc d)) s key
         = (Inl (KeyError (element @ ''.'' @ last (str_split CHR ''.'' (str_split CHR ''@'' key ! 1)))), s)"
    and "domain_setitem (Suc (Suc d)) s key val
         = (Inl (KeyError (element @ ''.'' @ last (str_split CHR ''.'' (str_split CHR ''@'' key ! 1)))), s)"
proof -
  note miss = foreign_label_miss [OF sp e1 e2 kn nm, of Domain d]
  show "domain_getitem (Suc (Suc d)) s key
         = (Inl (KeyError (element @ ''.'' @ last (str_split CHR ''.'' (str_split CHR ''@'' key ! 1)))), s)"
    using at sp miss by (simp del: base2_getitem.simps)
  show "domain_setitem (Suc (Suc d)) s key val
         = (Inl (KeyError (element @ ''.'' @ last (str_split CHR ''.'' (str_split CHR ''@'' key ! 1)))), s)"
    using at sp miss by (simp del: base2_getitem.simps)
qed

lemma foreign_element_domain:
  assumes na: "CHR ''@'' \<notin> set key"
    and sp: "str_split1 CHR ''.'' key = [element, rest]"
    and e1: "element \<noteq> ''pore''" and e2: "element \<noteq> ''throat''"
  shows "domain_setitem (Suc (Suc d)) s key (PScalar x) = (Inl NamingError, s)"
    and "domain_setitem (Suc (Suc d)) s key (PArr a) = (Inl NamingError, s)"
    and "keys_named s \<Longrightarrow> str_split CHR ''.'' key ! 1 \<noteq> name s
         \<Longrightarrow> domain_getitem (Suc (Suc d)) s key = (Inl (KeyError key), s)"
proof -
  show "domain_setitem (Suc (Suc d)) s key (PScalar x) = (Inl NamingError, s)"
    using na foreign_element_fails(1) [OF sp e1 e2, of Domain d s x]
    by (simp del: base2_setitem.simps)
  show "domain_setitem (Suc (Suc d)) s key (PArr a) = (Inl NamingError, s)"
    using na foreign_element_fails(2) [OF sp e1 e2, of Domain d s a]
    by (simp del: base2_setitem.simps)
  assume "keys_named s" and "str_split CHR ''.'' key ! 1 \<noteq> name s"
  then show "domain_getitem (Suc (Suc d)) s key = (Inl (KeyError key), s)"
    using na foreign_element_fails(3) [OF sp e1 e2, of s Domain d]
    by (simp del: base2_getitem.simps)
qed

text \<open>
  C7, as the code has it. A key with no dot fails with \<^verbatim>\<open>ValueError\<close> on every read and
  on every write of a value other than \<^verbatim>\<open>None\<close>, in both classes; on a \<^verbatim>\<open>Domain\<close>, a key
  with \<^verbatim>\<open>@\<close> and no dot before the \<^verbatim>\<open>@\<close> fails with \<^verbatim>\<open>ValueError\<close> on every read and on
  every write, that of \<^verbatim>\<open>None\<close> included. A key with a dot whose element is neither
  \<^verbatim>\<open>pore\<close> nor \<^verbatim>\<open>throat\<close> fails with the naming exception when a scalar or an array is
  written through \<^verbatim>\<open>Base2.__setitem__\<close>, which is where \<^verbatim>\<open>Domain.__setitem__\<close> sends a key
  without \<^verbatim>\<open>@\<close>. No read and no access with \<^verbatim>\<open>@\<close> checks the element: in a store whose
  keys all start with \<^verbatim>\<open>pore.\<close> or \<^verbatim>\<open>throat.\<close>, reading such a key ends in \<^verbatim>\<open>KeyError\<close> for
  the key (unless the key's second segment is the store's name), and on a \<^verbatim>\<open>Domain\<close> a
  read or a write of any value, \<^verbatim>\<open>None\<close> included, under such a key with \<^verbatim>\<open>@\<close> ends in
  \<^verbatim>\<open>KeyError\<close> for the label \<^verbatim>\<open>element.domain\<close> (unless the domain is the store's name).
  Writing \<^verbatim>\<open>None\<close> through \<^verbatim>\<open>Base2.__setitem__\<close>, and through \<^verbatim>\<open>Domain.__setitem__\<close> under a
  key without \<^verbatim>\<open>@\<close>, returns at once and leaves the store as it was, whatever the key.
\<close>

theorem addressing_errors:
  "(CHR ''.'' \<notin> set key1 \<longrightarrow>
      base2_getitem cls (Suc d) s key1 = (Inl ValueError, s)
    \<and> domain_getitem (Suc (Suc d)) s key1 = (Inl ValueError, s)
    \<and> (val \<noteq> PNone \<longrightarrow>
         base2_setitem cls (Suc d) s key1 val = (Inl ValueError, s)
       \<and> domain_setitem (Suc (Suc d)) s key1 val = (Inl ValueError, s)))
 \<and> (CHR ''@'' \<in> set key2 \<and> CHR ''.'' \<notin> set (str_split CHR ''@'' key2 ! 0) \<longrightarrow>
      domain_getitem (Suc d) s key2 = (Inl ValueError, s)
    \<and> domain_setitem (Suc d) s key2 val2 = (Inl ValueError, s)
    \<and> domain_setitem (Suc d) s key2 PNone = (Inl ValueError, s))
 \<and> (str_split1 CHR ''.'' key3 = [element, rest] \<and> element \<noteq> ''pore'' \<and> element \<noteq> ''throat'' \<longrightarrow>
      base2_setitem cls (Suc d) s key3 (PScalar x) = (Inl NamingError, s)
    \<and> base2_setitem cls (Suc d) s key3 (PArr a) = (Inl NamingError, s)
    \<and> (keys_named s \<and> str_split CHR ''.'' key3 ! 1 \<noteq> name s \<longrightarrow>
         base2_getitem cls (Suc d) s key3 = (Inl (KeyError key3), s))
    \<and> (CHR ''@'' \<notin> set key3 \<longrightarrow>
         domain_setitem (Suc (Suc d)) s key3 (PScalar x) = (Inl NamingError, s)
       \<and> domain_setitem (Suc (Suc d)) s key3 (PArr a) = (Inl NamingError, s)
       \<and> (keys_named s \<and> str_split CHR ''.'' key3 ! 1 \<noteq> name s \<longrightarrow>
            domain_getitem (Suc (Suc d)) s key3 = (Inl (KeyError key3), s))))
 \<and> (CHR ''@'' \<in> set key4
    \<and> str_split1 CHR ''.'' (str_split CHR ''@'' key4 ! 0) = [element4, rest4]
    \<and> element4 \<noteq> ''pore'' \<and> element4 \<noteq> ''throat'' \<and> keys_named s
    \<and> last (str_split CHR ''.'' (str_split CHR ''@'' key4 ! 1)) \<noteq> name s \<longrightarrow>
      domain_getitem (Suc (Suc d)) s key4
        = (Inl (KeyError (element4 @ ''.'' @ last (str_split CHR ''.'' (str_split CHR ''@'' key4 ! 1)))), s)
    \<and> domain_setitem (Suc (Suc d)) s key4 val4
        = (Inl (KeyError (element4 @ ''.'' @ last (str_split CHR ''.'' (str_split CHR ''@'' key4 ! 1)))), s)
    \<and> domain_setitem (Suc (Suc d)) s key4 PNone
        = (Inl (KeyError (element4 @ ''.'' @ last (str_split CHR ''.'' (str_split CHR ''@'' key4 ! 1)))), s))
 \<and> base2_setitem cls (Suc d) s key5 PNone = (Inr (), s)
 \<and> (CHR ''@'' \<notin> set key5 \<longrightarrow> domain_setitem (Suc (Suc d)) s key5 PNone = (Inr (), s))"
proof (intro conjI impI; (elim conjE)?)
  assume nd: "CHR ''.'' \<notin> set key1"
  show "base2_getitem cls (Suc d) s key1 = (Inl ValueError, s)"
    using nd by (rule no_dot_fails(1))
  show "domain_getitem (Suc (Suc d)) s key1 = (Inl ValueError, s)"
    using nd by (rule no_dot_fails(2))
  assume nn: "val \<noteq> PNone"
  show "base2_setitem cls (Suc d) s key1 val = (Inl ValueError, s)"
    using nd nn by (rule no_dot_fails(3))
  show "domain_setitem (Suc (Suc d)) s key1 val = (Inl ValueError, s)"
    using nd nn by (rule no_dot_fails(4))
next
  assume at: "CHR ''@'' \<in> set key2" and nd: "CHR ''.'' \<notin> set (str_split CHR ''@'' key2 ! 0)"
  show "domain_getitem (Suc d) s key2 = (Inl ValueError, s)"
    using at nd by (rule domain_at_no_dot(1))
  show "domain_setitem (Suc d) s key2 val2 = (Inl ValueError, s)"
    using at nd by (rule domain_at_no_dot(2))
  show "domain_setitem (Suc d) s key2 PNone = (Inl ValueError, s)"
    using at nd by (rule domain_at_no_dot(2))
next
  assume sp: "str_split1 CHR ''.'' key3 = [element, rest]"
    and e1: "element \<noteq> ''pore''" and e2: "element \<noteq> ''throat''"
  show "base2_setitem cls (Suc d) s key3 (PScalar x) = (Inl NamingError, s)"
    using sp e1 e2 by (rule foreign_element_fails(1))
  show "base2_setitem cls (Suc d) s key3 (PArr a) = (Inl NamingError, s)"
    using sp e1 e2 by (rule foreign_element_fails(2))
  {
    assume "keys_named s" and "str_split CHR ''.'' key3 ! 1 \<noteq> name s"
    with sp e1 e2 show "base2_getitem cls (Suc d) s key3 = (Inl (KeyError key3), s)"
      by (rule foreign_element_fails(3))
  }
  assume na: "CHR ''@'' \<notin> set key3"
  show "domain_setitem (Suc (Suc d)) s key3 (PScalar x) = (Inl NamingError, s)"
    using na sp e1 e2 by (rule foreign_element_domain(1))
  show "domain_setitem (Suc (Suc d)) s key3 (PArr a) = (Inl NamingError, s)"
    using na sp e1 e2 by (rule foreign_element_domain(2))
  assume "keys_named s" and "str_split CHR ''.'' key3 ! 1 \<noteq> name s"
  with na sp e1 e2 show "domain_getitem (Suc (Suc d)) s key3 = (Inl (KeyError key3), s)"
    by (rule foreign_element_domain(3))
next
  assume at: "CHR ''@'' \<in> set key4"
    and sp: "str_split1 CHR ''.'' (str_split CHR ''@'' key4 ! 0) = [element4, rest4]"
    and e1: "element4 \<noteq> ''pore''" and e2: "element4 \<noteq> ''throat''"
    and kn: "keys_named s"
    and nm: "last (str_split CHR ''.'' (str_split CHR ''@'' key4 ! 1)) \<noteq> name s"
  show "domain_getitem (Suc (Suc d)) s key4
        = (Inl (KeyError (element4 @ ''.'' @ last (str_split CHR ''.'' (str_split CHR ''@'' key4 ! 1)))), s)"
    using at sp e1 e2 kn nm by (rule domain_at_foreign(1))
  show "domain_setitem (Suc (Suc d)) s key4 val4
        = (Inl (KeyError (element4 @ ''.'' @ last (str_split CHR ''.'' (str_split CHR ''@'' key4 ! 1)))), s)"
    using at sp e1 e2 kn nm by (rule domain_at_foreign(2))
  show "domain_setitem (Suc (Suc d)) s key4 PNone
        = (Inl (KeyError (element4 @ ''.'' @ last (str_split CHR ''.'' (str_split CHR ''@'' key4 ! 1)))), s)"
    using at sp e1 e2 kn nm by (rule domain_at_foreign(2))
next
  show "base2_setitem cls (Suc d) s key5 PNone = (Inr (), s)" by simp
next
  assume "CHR ''@'' \<notin> set key5"
  then show "domain_setitem (Suc (Suc d)) s key5 PNone = (Inr (), s)" by simp
qed

theorem addressing_errors_witness:
  "CHR ''.'' \<notin> set ''nodot'' \<and> PScalar (PFloat 1) \<noteq> PNone
   \<and> CHR ''@'' \<in> set ''nodot@left'' \<and> CHR ''.'' \<notin> set (str_split CHR ''@'' ''nodot@left'' ! 0)
   \<and> str_split1 CHR ''.'' ''foo.bar'' = [''foo'', ''bar''] \<and> CHR ''@'' \<notin> set ''foo.bar''
   \<and> keys_named ex_store \<and> str_split CHR ''.'' ''foo.bar'' ! 1 \<noteq> name ex_store
   \<and> CHR ''@'' \<in> set ''foo.bar@left''
   \<and> str_split1 CHR ''.'' (str_split CHR ''@'' ''foo.bar@left'' ! 0) = [''foo'', ''bar'']
   \<and> last (str_split CHR ''.'' (str_split CHR ''@'' ''foo.bar@left'' ! 1)) \<noteq> name ex_store
   \<and> base2_getitem Base2 (Suc 0) ex_store ''nodot'' = (Inl ValueError, ex_store)
   \<and> domain_getitem (Suc (Suc 0)) ex_store ''nodot'' = (Inl ValueError, ex_store)
   \<and> base2_setitem Base2 (Suc 0) ex_store ''nodot'' (PScalar (PFloat 1)) = (Inl ValueError, ex_store)
   \<and> domain_setitem (Suc (Suc 0)) ex_store ''nodot'' (PScalar (PFloat 1)) = (Inl ValueError, ex_store)
   \<and> domain_getitem (Suc 0) ex_store ''nodot@left'' = (Inl ValueError, ex_store)
   \<and> domain_setitem (Suc 0) ex_store ''nodot@left'' (PScalar (PFloat 1)) = (Inl ValueError, ex_store)
   \<and> domain_setitem (Suc 0) ex_store ''nodot@left'' PNone = (Inl ValueError, ex_store)
   \<and> base2_setitem Base2 (Suc 0) ex_store ''foo.bar'' (PScalar (PFloat 1)) = (Inl NamingError, ex_store)
   \<and> base2_setitem Base2 (Suc 0) ex_store ''foo.bar'' (PArr ex_left) = (Inl NamingError, ex_store)
   \<and> base2_getitem Base2 (Suc 0) ex_store ''foo.bar'' = (Inl (KeyError ''foo.bar''), ex_store)
   \<and> domain_setitem (Suc (Suc 0)) ex_store ''foo.bar'' (PScalar (PFloat 1)) = (Inl NamingError, ex_store)
   \<and> domain_setitem (Suc (Suc 0)) ex_store ''foo.bar'' (PArr ex_left) = (Inl NamingError, ex_store)
   \<and> domain_getitem (Suc (Suc 0)) ex_store ''foo.bar'' = (Inl (KeyError ''foo.bar''), ex_store)
   \<and> domain_getitem (Suc (Suc 0)) ex_store ''foo.bar@left'' = (Inl (KeyError ''foo.left''), ex_store)
   \<and> domain_setitem (Suc (Suc 0)) ex_store ''foo.bar@left'' (PScalar (PFloat 1))
       = (Inl (KeyError ''foo.left''), ex_store)
   \<and> domain_setitem (Suc (Suc 0)) ex_store ''foo.bar@left'' PNone = (Inl (KeyError ''foo.left''), ex_store)
   \<and> base2_setitem Base2 (Suc 0) ex_store ''nodot'' PNone = (Inr (), ex_store)
   \<and> domain_setitem (Suc (Suc 0)) ex_store ''nodot'' PNone = (Inr (), ex_store)"
proof -
  have h1: "CHR ''.'' \<notin> set ''nodot''" "CHR ''@'' \<notin> set ''nodot''" by simp_all
  have h2: "CHR ''@'' \<in> set ''nodot@left''" "str_split CHR ''@'' ''nodot@left'' ! 0 = ''nodot''"
    by simp_all
  have h3: "str_split1 CHR ''.'' ''foo.bar'' = [''foo'', ''bar'']" "CHR ''@'' \<notin> set ''foo.bar''"
    by (simp_all add: str_split1_def)
  have h4: "keys_named ex_store" by (simp add: keys_named_def ex_store_def)
  have h5: "str_split CHR ''.'' ''foo.bar'' ! 1 \<noteq> name ex_store" by (simp add: ex_store_def)
  have h6: "CHR ''@'' \<in> set ''foo.bar@left''"
    "str_split CHR ''@'' ''foo.bar@left'' ! 0 = ''foo.bar''"
    "last (str_split CHR ''.'' (str_split CHR ''@'' ''foo.bar@left'' ! 1)) = ''left''"
    "''left'' \<noteq> name ex_store"
    by (simp_all add: ex_store_def)
  show ?thesis
    using addressing_errors [of "''nodot''" Base2 0 ex_store "PScalar (PFloat 1)"
        "''nodot@left''" "PScalar (PFloat 1)" "''foo.bar''" "''foo''" "''bar''" "PFloat 1" ex_left
        "''foo.bar@left''" "''foo''" "''bar''" "PScalar (PFloat 1)" "''nodot''"]
      h1 h2 h3 h4 h5 h6
    by simp
qed

text \<open>
  C7 as stated fails: writing \<^verbatim>\<open>None\<close> under a key with no dot raises nothing, and
  reading a key whose element is \<^verbatim>\<open>foo\<close> raises \<^verbatim>\<open>KeyError\<close>, the missing-key error, not
  one about the key's form.
\<close>

theorem addressing_counterexample:
  "base2_setitem Base2 (Suc 0) ex_store ''nodot'' PNone = (Inr (), ex_store)
   \<and> base2_getitem Base2 (Suc 0) ex_store ''foo.bar'' = (Inl (KeyError ''foo.bar''), ex_store)"
  by (simp add: str_split1_def ex_store_def)

section \<open>The shape guard\<close>

text \<open>
  C9. For a kind whose count \<open>n\<close> is established, setting a key other than
  \<^verbatim>\<open>pore.coords\<close> and \<^verbatim>\<open>throat.conns\<close> to an array whose leading length is neither 1 nor
  \<open>n\<close> raises the wrong-length exception and leaves the store as it was. This holds
  for \<^verbatim>\<open>Base2.__setitem__\<close> on an object of either class, and for \<^verbatim>\<open>Domain.__setitem__\<close>
  on a key without \<^verbatim>\<open>@\<close>, which delegates to it.
\<close>

theorem shape_guard:
  assumes "str_split1 CHR ''.'' key = [element, prop]"
    and "element = ''pore'' \<or> element = ''throat''"
    and "key \<noteq> ''pore.coords''" and "key \<noteq> ''throat.conns''"
    and "base2_count s element = Inr (Some n)"
    and "shape a = l # tr" and "l \<noteq> 1" and "l \<noteq> n"
  shows "base2_setitem cls (Suc d) s key (PArr a) = (Inl (LengthError key), s)
       \<and> (CHR ''@'' \<notin> set key \<longrightarrow>
            domain_setitem (Suc (Suc d)) s key (PArr a) = (Inl (LengthError key), s))"
  using assms by (auto simp: base2_write_def)

theorem shape_guard_witness:
  "str_split1 CHR ''.'' ''pore.x'' = [''pore'', ''x'']
   \<and> base2_count ex_store ''pore'' = Inr (Some 9)
   \<and> shape (np_full DFloat [5] (PFloat 0)) = [5]
   \<and> base2_setitem Base2 (Suc 0) ex_store ''pore.x'' (PArr (np_full DFloat [5] (PFloat 0)))
       = (Inl (LengthError ''pore.x''), ex_store)
   \<and> domain_setitem (Suc (Suc 0)) ex_store ''pore.x'' (PArr (np_full DFloat [5] (PFloat 0)))
       = (Inl (LengthError ''pore.x''), ex_store)"
proof -
  have h1: "str_split1 CHR ''.'' ''pore.x'' = [''pore'', ''x'']" by (simp add: str_split1_def)
  have h5: "base2_count ex_store ''pore'' = Inr (Some 9)"
    by (simp add: base2_count_def ex_store_def np_full_def)
  have h6: "shape (np_full DFloat [5] (PFloat 0)) = [5]" by (simp add: np_full_def)
  show ?thesis
    using shape_guard [OF h1 _ _ _ h5 h6, of Base2 0] h1 h5 h6 by simp
qed

section \<open>Broadcasting a single value\<close>

lemma concat_replicate_single: "concat (replicate n [x]) = replicate n x"
  by (induction n) simp_all

lemma ones_times_1d:
  assumes "shape a = [1]" and "data a = [x]"
  shows "ones_times n a = Inr \<lparr>dtype = dtype a, shape = [n], data = replicate n x\<rparr>"
  using assms
  by (auto simp: ones_times_def broadcast_shapes_def broadcast_to_def concat_replicate_single)

text \<open>
  The broadcast of the spec's P1 holds for a Python scalar and for a one-dimensional
  array of one element.
\<close>

lemma broadcast_one_dim:
  assumes "str_split1 CHR ''.'' key = [element, rest]"
    and "element = ''pore'' \<or> element = ''throat''"
    and "key \<noteq> ''pore.coords''" and "key \<noteq> ''throat.conns''"
    and "base2_count s element = Inr (Some n)"
    and "shape a = [1]" and "data a = [x]"
  shows "base2_setitem cls (Suc d) s key (PArr a)
         = (Inr (), dict_store s key \<lparr>dtype = dtype a, shape = [n], data = replicate n x\<rparr>)"
  using assms by (auto simp: base2_write_def ones_times_1d)

lemma broadcast_scalar:
  assumes "str_split1 CHR ''.'' key = [element, rest]"
    and "element = ''pore'' \<or> element = ''throat''"
    and "key \<noteq> ''pore.coords''" and "key \<noteq> ''throat.conns''"
    and "base2_count s element = Inr (Some n)"
  shows "base2_setitem cls (Suc d) s key (PScalar x)
         = (Inr (), dict_store s key \<lparr>dtype = dtype_of x, shape = [n], data = replicate n x\<rparr>)"
  using assms by (auto simp: base2_write_def ones_times_1d np_array_ndmin1_def)

text \<open>
  C8 at an array of shape \<open>(1, 1)\<close>, whose leading length is 1: with nine pores the
  product \<^verbatim>\<open>np.ones((9, ))*value\<close> has shape \<open>(1, 9)\<close>, and that is what is stored. Its
  leading length is 1, not 9.
\<close>

theorem broadcast_two_dim:
  "base2_setitem Base2 (Suc 0) ex_store ''pore.x''
     (PArr \<lparr>dtype = DFloat, shape = [1, 1], data = [PFloat 5]\<rparr>)
   = (Inr (), dict_store ex_store ''pore.x''
        \<lparr>dtype = DFloat, shape = [1, 9], data = replicate 9 (PFloat 5)\<rparr>)"
  by (simp add: str_split1_def base2_write_def base2_count_def ex_store_def np_full_def
      ones_times_def broadcast_shapes_def broadcast_to_def dict_store_def eval_nat_numeral)

section \<open>Writing \<^verbatim>\<open>None\<close>\<close>

text \<open>\<^verbatim>\<open>Base2.__setitem__\<close> returns at once on \<^verbatim>\<open>None\<close>, whatever the key.\<close>

lemma none_write_base2: "base2_setitem cls (Suc d) s key PNone = (Inr (), s)"
  by simp

lemma none_write_domain_plain:
  "CHR ''@'' \<notin> set key \<Longrightarrow> domain_setitem (Suc (Suc d)) s key PNone = (Inr (), s)"
  by simp

text \<open>
  C3 at a domain-qualified key: \<^verbatim>\<open>Domain.__setitem__\<close> has no test for \<^verbatim>\<open>None\<close> on its
  \<^verbatim>\<open>@\<close> branch. Writing \<^verbatim>\<open>None\<close> to \<^verbatim>\<open>pore.seed@left\<close> in the example network, where
  \<^verbatim>\<open>pore.seed\<close> does not exist, creates \<^verbatim>\<open>pore.seed\<close> as nine NaNs.
\<close>

theorem none_write_domain_at:
  "map_of (items ex_store) ''pore.seed'' = None
   \<and> domain_setitem 4 ex_store ''pore.seed@left'' PNone
     = (Inr (), dict_store ex_store ''pore.seed'' (np_full DFloat [9] PNaN))"
  by code_simp

section \<open>Domain writes to a throat property that does not exist\<close>

lemma throat_vivify_set:
  assumes at: "CHR ''@'' \<in> set key"
    and sp: "str_split1 CHR ''.'' (str_split CHR ''@'' key ! 0) = [''throat'', rest]"
    and lab: "map_of (items s)
                (''throat.'' @ last (str_split CHR ''.'' (str_split CHR ''@'' key ! 1))) = Some m"
    and absent: "map_of (items s) (''throat.'' @ rest) = None"
    and nogroup: "filter (\<lambda>(k, v). startswith k (''throat.'' @ rest @ ''.'')) (items s) = []"
    and noself: "str_split CHR ''.'' (''throat.'' @ rest) ! 1 \<noteq> name s"
    and notconns: "rest \<noteq> ''conns''"
    and np: "Np s = Inr (Some np)" and nt: "Nt s = Inr (Some nt)"
    and ne: "np \<noteq> nt" and ne1: "np \<noteq> 1"
  shows "domain_setitem (Suc (Suc (Suc d))) s key val
         = (Inl (LengthError (''throat.'' @ rest)), s)"
proof -
  have pk: "str_split CHR ''@'' key ! 0 = ''throat.'' @ rest"
    using str_split1_two(1) [OF sp] by simp
  have noat: "CHR ''@'' \<notin> set (''throat.'' @ rest)"
    using str_split_first_no_sep [of "CHR ''@''" key] unfolding pk .
  have sp1: "\<And>x. str_split1 CHR ''.'' (''throat.'' @ x) = [''throat'', x]"
    by (simp add: str_split1_def)
  have miss: "base2_getitem Domain (Suc d) s (''throat.'' @ rest)
              = (Inl (KeyError (''throat.'' @ rest)), s)"
    using sp1 absent noself nogroup by (intro lookup_miss) auto
  have lbl: "base2_getitem Domain (Suc (Suc d)) s
               (''throat.'' @ last (str_split CHR ''.'' (str_split CHR ''@'' key ! 1)))
             = (Inr (RArr m), s)"
    using lab sp1 by simp
  have get: "domain_getitem (Suc (Suc d)) s (''throat.'' @ rest)
             = (Inl (KeyError (''throat.'' @ rest)), s)"
    using noat miss by simp
  have wr: "base2_setitem Domain (Suc (Suc d)) s (''throat.'' @ rest) (PArr (np_full dt (np # tr) x))
            = (Inl (LengthError (''throat.'' @ rest)), s)" for dt tr x
    using sp1 notconns nt ne ne1 by (simp add: base2_write_def Nt_def np_full_def)
  show ?thesis
    using at sp lbl get np wr
    by (simp del: base2_getitem.simps base2_setitem.simps domain_getitem.simps)
qed

lemma throat_vivify_run:
  assumes sp: "str_split1 CHR ''.'' (str_split CHR ''@'' propname ! 0) = [''throat'', rest]"
    and reg: "map_of (models g) (''throat.'' @ rest @ ''@'' @ last (str_split CHR ''.'' dm)) = Some m"
    and out: "model m (base g) (Some (''throat.'' @ last (str_split CHR ''.'' dm))) (kwargs m)
              = Inr (PArr v)"
    and absent: "''throat.'' @ rest \<notin> fst ` set (items (base g))"
    and notconns: "rest \<noteq> ''conns''"
    and np: "Np (base g) = Inr (Some np)" and nt: "Nt (base g) = Inr (Some nt)"
    and ne: "np \<noteq> nt" and ne1: "np \<noteq> 1"
  shows "run_model (Suc (Suc d)) g propname (Some dm)
         = (Inl (LengthError (''throat.'' @ rest)),
            g\<lparr>calls := calls g @ [''throat.'' @ rest @ ''@'' @ last (str_split CHR ''.'' dm)]\<rparr>)"
proof -
  have pk: "str_split CHR ''@'' propname ! 0 = ''throat.'' @ rest"
    using str_split1_two(1) [OF sp] by simp
  have noat: "CHR ''@'' \<notin> set (''throat.'' @ rest)"
    using str_split_first_no_sep [of "CHR ''@''" propname] unfolding pk .
  have sp1: "\<And>x. str_split1 CHR ''.'' (''throat.'' @ x) = [''throat'', x]"
    by (simp add: str_split1_def)
  have wr: "domain_setitem (Suc (Suc d)) (base g) (''throat.'' @ rest) (PArr (np_full dt (np # tr) x))
            = (Inl (LengthError (''throat.'' @ rest)), base g)" for dt tr x
    using sp1 notconns nt ne ne1 noat by (simp add: base2_write_def Nt_def np_full_def)
  show ?thesis
    using sp reg out absent np wr
    by (simp add: run_model_def run_model_domain_def del: domain_setitem.simps)
qed

text \<open>
  C10, as the code has it. A domain-qualified write to a throat property that does not
  exist, and a domain-qualified \<^verbatim>\<open>run_model\<close> of one, allocate the new array with
  leading length \<open>Np\<close>. When \<open>Np\<close> is established, differs from the throat count \<open>Nt\<close>
  and is not 1, and the property is not \<^verbatim>\<open>throat.conns\<close> (which is stored unchecked), the
  write of that array raises the wrong-length exception and the store is left without
  the property.
\<close>

theorem throat_vivify_wrong_length:
  "(CHR ''@'' \<in> set key
    \<and> str_split1 CHR ''.'' (str_split CHR ''@'' key ! 0) = [''throat'', rest]
    \<and> map_of (items s)
         (''throat.'' @ last (str_split CHR ''.'' (str_split CHR ''@'' key ! 1))) = Some m
    \<and> map_of (items s) (''throat.'' @ rest) = None
    \<and> filter (\<lambda>(k, v). startswith k (''throat.'' @ rest @ ''.'')) (items s) = []
    \<and> str_split CHR ''.'' (''throat.'' @ rest) ! 1 \<noteq> name s
    \<and> rest \<noteq> ''conns''
    \<and> Np s = Inr (Some np) \<and> Nt s = Inr (Some nt) \<and> np \<noteq> nt \<and> np \<noteq> 1
    \<longrightarrow> domain_setitem (Suc (Suc (Suc d))) s key val
        = (Inl (LengthError (''throat.'' @ rest)), s))
 \<and> (str_split1 CHR ''.'' (str_split CHR ''@'' propname ! 0) = [''throat'', rest']
    \<and> map_of (models g) (''throat.'' @ rest' @ ''@'' @ last (str_split CHR ''.'' dm)) = Some ms
    \<and> model ms (base g) (Some (''throat.'' @ last (str_split CHR ''.'' dm))) (kwargs ms)
        = Inr (PArr v)
    \<and> ''throat.'' @ rest' \<notin> fst ` set (items (base g))
    \<and> rest' \<noteq> ''conns''
    \<and> Np (base g) = Inr (Some np') \<and> Nt (base g) = Inr (Some nt') \<and> np' \<noteq> nt' \<and> np' \<noteq> 1
    \<longrightarrow> run_model (Suc (Suc d)) g propname (Some dm)
        = (Inl (LengthError (''throat.'' @ rest')),
           g\<lparr>calls := calls g @ [''throat.'' @ rest' @ ''@'' @ last (str_split CHR ''.'' dm)]\<rparr>))"
proof (intro conjI impI; elim conjE)
  show "domain_setitem (Suc (Suc (Suc d))) s key val = (Inl (LengthError (''throat.'' @ rest)), s)"
    if "CHR ''@'' \<in> set key"
      "str_split1 CHR ''.'' (str_split CHR ''@'' key ! 0) = [''throat'', rest]"
      "map_of (items s)
         (''throat.'' @ last (str_split CHR ''.'' (str_split CHR ''@'' key ! 1))) = Some m"
      "map_of (items s) (''throat.'' @ rest) = None"
      "filter (\<lambda>(k, v). startswith k (''throat.'' @ rest @ ''.'')) (items s) = []"
      "str_split CHR ''.'' (''throat.'' @ rest) ! 1 \<noteq> name s"
      "rest \<noteq> ''conns''"
      "Np s = Inr (Some np)" "Nt s = Inr (Some nt)" "np \<noteq> nt" "np \<noteq> 1"
    using that by (rule throat_vivify_set)
  show "run_model (Suc (Suc d)) g propname (Some dm)
        = (Inl (LengthError (''throat.'' @ rest')),
           g\<lparr>calls := calls g @ [''throat.'' @ rest' @ ''@'' @ last (str_split CHR ''.'' dm)]\<rparr>)"
    if "str_split1 CHR ''.'' (str_split CHR ''@'' propname ! 0) = [''throat'', rest']"
      "map_of (models g) (''throat.'' @ rest' @ ''@'' @ last (str_split CHR ''.'' dm)) = Some ms"
      "model ms (base g) (Some (''throat.'' @ last (str_split CHR ''.'' dm))) (kwargs ms)
        = Inr (PArr v)"
      "''throat.'' @ rest' \<notin> fst ` set (items (base g))"
      "rest' \<noteq> ''conns''"
      "Np (base g) = Inr (Some np')" "Nt (base g) = Inr (Some nt')" "np' \<noteq> nt'" "np' \<noteq> 1"
    using that by (rule throat_vivify_run)
qed

theorem throat_vivify_wrong_length_witness:
  "CHR ''@'' \<in> set ''throat.seed@left''
   \<and> str_split1 CHR ''.'' (str_split CHR ''@'' ''throat.seed@left'' ! 0) = [''throat'', ''seed'']
   \<and> map_of (items ex_store)
        (''throat.'' @ last (str_split CHR ''.'' (str_split CHR ''@'' ''throat.seed@left'' ! 1)))
      = Some ex_tleft
   \<and> map_of (items ex_store) (''throat.'' @ ''seed'') = None
   \<and> filter (\<lambda>(k, v). startswith k (''throat.'' @ ''seed'' @ ''.'')) (items ex_store) = []
   \<and> str_split CHR ''.'' (''throat.'' @ ''seed'') ! 1 \<noteq> name ex_store
   \<and> Np ex_store = Inr (Some 9) \<and> Nt ex_store = Inr (Some 12)
   \<and> domain_setitem (Suc (Suc (Suc 0))) ex_store ''throat.seed@left'' (PScalar (PFloat 1))
      = (Inl (LengthError ''throat.seed''), ex_store)
   \<and> str_split1 CHR ''.'' (str_split CHR ''@'' ''throat.seed'' ! 0) = [''throat'', ''seed'']
   \<and> map_of (models ex_throat_obj) (''throat.'' @ ''seed'' @ ''@'' @ last (str_split CHR ''.'' ''left''))
      = Some ex_spec
   \<and> model ex_spec (base ex_throat_obj) (Some (''throat.'' @ last (str_split CHR ''.'' ''left'')))
        (kwargs ex_spec) = Inr (PArr (np_full DFloat [2] (PFloat (1 / 2))))
   \<and> ''throat.'' @ ''seed'' \<notin> fst ` set (items (base ex_throat_obj))
   \<and> run_model (Suc (Suc 0)) ex_throat_obj ''throat.seed'' (Some ''left'')
      = (Inl (LengthError ''throat.seed''), ex_throat_obj\<lparr>calls := [''throat.seed@left'']\<rparr>)"
proof -
  have a1: "CHR ''@'' \<in> set ''throat.seed@left''" by simp
  have a2: "str_split1 CHR ''.'' (str_split CHR ''@'' ''throat.seed@left'' ! 0) = [''throat'', ''seed'']"
    by (simp add: str_split1_def)
  have a3: "map_of (items ex_store)
        (''throat.'' @ last (str_split CHR ''.'' (str_split CHR ''@'' ''throat.seed@left'' ! 1)))
      = Some ex_tleft" by (simp add: ex_store_def)
  have a4: "map_of (items ex_store) (''throat.'' @ ''seed'') = None" by (simp add: ex_store_def)
  have a5: "filter (\<lambda>(k, v). startswith k (''throat.'' @ ''seed'' @ ''.'')) (items ex_store) = []"
    by (simp add: ex_store_def)
  have a6: "str_split CHR ''.'' (''throat.'' @ ''seed'') ! 1 \<noteq> name ex_store"
    by (simp add: ex_store_def)
  have a7: "Np ex_store = Inr (Some 9)" "Nt ex_store = Inr (Some 12)"
    by (simp_all add: Np_def Nt_def base2_count_def ex_store_def np_full_def)
  have b1: "str_split1 CHR ''.'' (str_split CHR ''@'' ''throat.seed'' ! 0) = [''throat'', ''seed'']"
    by (simp add: str_split1_def)
  have b2: "map_of (models ex_throat_obj) (''throat.'' @ ''seed'' @ ''@'' @ last (str_split CHR ''.'' ''left''))
      = Some ex_spec" by (simp add: ex_throat_obj_def)
  have b3: "model ex_spec (base ex_throat_obj) (Some (''throat.'' @ last (str_split CHR ''.'' ''left'')))
        (kwargs ex_spec) = Inr (PArr (np_full DFloat [2] (PFloat (1 / 2))))"
    by (simp add: ex_spec_def ex_seed_def ex_throat_obj_def ex_store_def ex_tleft_def mask_bits_def
        eval_nat_numeral)
  have b4: "''throat.'' @ ''seed'' \<notin> fst ` set (items (base ex_throat_obj))"
    by (simp add: ex_throat_obj_def ex_store_def)
  have b5: "Np (base ex_throat_obj) = Inr (Some 9)" "Nt (base ex_throat_obj) = Inr (Some 12)"
    using a7 by (simp_all add: ex_throat_obj_def)
  have c: "calls ex_throat_obj = []" by (simp add: ex_throat_obj_def)
  show ?thesis
    using throat_vivify_wrong_length [of "''throat.seed@left''" "''seed''" ex_store ex_tleft 9 12 0
        "PScalar (PFloat 1)" "''throat.seed''" "''seed''" ex_throat_obj "''left''" ex_spec
        "np_full DFloat [2] (PFloat (1 / 2))" 9 12]
      a1 a2 a3 a4 a5 a6 a7 b1 b2 b3 b4 b5 c
    by simp
qed

text \<open>
  C10 as stated fails when \<open>Np\<close> is 1: the new array then has leading length 1, which
  \<^verbatim>\<open>Base2.__setitem__\<close> broadcasts to \<open>Nt\<close>. With one pore and two throats the write
  succeeds and creates the throat array.
\<close>

theorem throat_vivify_counterexample:
  "Np ex_one_pore = Inr (Some 1) \<and> Nt ex_one_pore = Inr (Some 2)
   \<and> map_of (items ex_one_pore) ''throat.seed'' = None
   \<and> domain_setitem 4 ex_one_pore ''throat.seed@left''
        (PArr \<lparr>dtype = DFloat, shape = [1], data = [PFloat 5]\<rparr>)
      = (Inr (), dict_store ex_one_pore ''throat.seed''
                   \<lparr>dtype = DFloat, shape = [2], data = [PFloat 5, PNaN]\<rparr>)"
  by code_simp

section \<open>Facts about broadcasting and masks\<close>

lemma bcast_rows_id:
  assumes "\<And>r. length r = n \<Longrightarrow> f r = Some r"
  shows "length xs = k * n \<Longrightarrow> bcast_rows k n f xs = Some xs"
proof (induction k arbitrary: xs)
  case 0
  then show ?case by simp
next
  case (Suc k)
  then have "length (take n xs) = n" and "length (drop n xs) = k * n" by simp_all
  with assms Suc.IH show ?case by simp
qed

lemma bcast_id: "length xs = prod_list t \<Longrightarrow> bcast t t xs = Some xs"
proof (induction t arbitrary: xs)
  case Nil
  then show ?case by simp
next
  case (Cons a t)
  then show ?case by (simp add: bcast_rows_id)
qed

lemma broadcast_to_id: "length xs = prod_list t \<Longrightarrow> broadcast_to t t xs = Some xs"
  by (simp add: broadcast_to_def bcast_id)

lemma np_cast_id: "list_all (\<lambda>x. dtype_of x = dt) xs \<Longrightarrow> map (np_cast dt) xs = xs"
proof (induction xs)
  case Nil
  then show ?case by simp
next
  case (Cons x xs)
  then show ?case by (cases dt; cases x) simp_all
qed

lemma scatter_cells_none: "scatter_cells n (replicate j False) xs ys = xs"
  by (induction j arbitrary: xs) simp_all

lemma scatter_cells_prefix:
  "scatter_cells n (replicate k True @ replicate j False) xs ys
   = take (k * n) ys @ drop (k * n) xs"
proof (induction k arbitrary: xs ys)
  case 0
  then show ?case by (simp add: scatter_cells_none)
next
  case (Suc k)
  have "take (n + k * n) ys = take n ys @ take (k * n) (drop n ys)"
    by (simp add: take_add)
  then show ?case using Suc by (simp add: add.commute)
qed

lemma select_cells_none: "select_cells n (replicate j False) xs = []"
  by (induction j arbitrary: xs) simp_all

lemma select_cells_prefix:
  "select_cells n (replicate k True @ replicate j False) xs = take (k * n) xs"
proof (induction k arbitrary: xs)
  case 0
  then show ?case by (simp add: select_cells_none)
next
  case (Suc k)
  have "take (n + k * n) xs = take n xs @ take (k * n) (drop n xs)"
    by (simp add: take_add)
  then show ?case using Suc by simp
qed

lemma ex_left_bits: "mask_bits ex_left = replicate 3 True @ replicate 6 False"
  by (simp add: mask_bits_def ex_left_def eval_nat_numeral)

section \<open>Scatter and gather through a domain\<close>

lemma scatter_fresh:
  assumes label: "map_of (items s) ''pore.left'' = Some ex_left"
    and np: "Np s = Inr (Some 9)"
    and absent: "map_of (items s) ''pore.seed'' = None"
    and nogroup: "filter (\<lambda>(k, v). startswith k ''pore.seed.'') (items s) = []"
    and noself: "name s \<noteq> ''seed''"
    and shp: "shape v = 3 # tr" and wf: "wf_array v"
  shows "\<exists>s'. domain_setitem (Suc (Suc (Suc d))) s ''pore.seed@left'' (PArr v) = (Inr (), s')
     \<and> domain_getitem (Suc (Suc d)) s' ''pore.seed@left'' = (Inr (RArr v), s')
     \<and> domain_getitem (Suc (Suc d)) s' ''pore.seed''
       = (Inr (RArr \<lparr>dtype = dtype v, shape = 9 # tr,
                     data = data v @ replicate (6 * prod_list tr)
                                       (if dtype v = DBool then PBool False else PNaN)\<rparr>), s')"
proof -
  define seed where "seed = (if dtype v = DBool then PBool False else PNaN)"
  define temp where "temp = np_full (dtype v) (9 # tr) seed"
  define a' where "a' = \<lparr>dtype = dtype v, shape = 9 # tr,
                          data = data v @ replicate (6 * prod_list tr) seed\<rparr>"
  define s3 where "s3 = dict_store s ''pore.seed'' temp"
  define s' where "s' = dict_store s3 ''pore.seed'' a'"
  have len: "length (data v) = 3 * prod_list tr"
    and cast: "map (np_cast (dtype v)) (data v) = data v"
    using wf shp by (simp_all add: wf_array_def np_cast_id)
  have key: "str_split CHR ''@'' ''pore.seed@left'' = [''pore.seed'', ''left'']"
    and sp: "str_split1 CHR ''.'' ''pore.seed'' = [''pore'', ''seed'']"
      "str_split1 CHR ''.'' ''pore.left'' = [''pore'', ''left'']"
    by (simp_all add: str_split1_def)
  have lbl: "base2_getitem Domain (Suc k) s ''pore.left'' = (Inr (RArr ex_left), s)" for k
    using label sp by simp
  have miss: "domain_getitem (Suc (Suc d)) s ''pore.seed'' = (Inl (KeyError ''pore.seed''), s)"
    using absent nogroup noself sp by simp
  have tmp: "(if np_array_is_bool (PArr v)
              then np_full DBool (9 # tl (np_array_shape (PArr v))) (PBool False)
              else np_full DFloat (9 # tl (np_array_shape (PArr v))) PNaN) = temp"
    using shp by (cases "dtype v") (simp_all add: temp_def seed_def)
  have wr: "base2_setitem Domain (Suc (Suc d)) s ''pore.seed'' (PArr temp) = (Inr (), s3)"
    using sp np by (simp add: base2_write_def Np_def temp_def np_full_def s3_def)
  have get3: "domain_getitem (Suc (Suc d)) s3 ''pore.seed'' = (Inr (RArr temp), s3)"
    using sp by (simp add: s3_def dict_store_def map_of_dict_update)
  have ok: "mask_ok temp ex_left" "mask_ok a' ex_left"
    by (simp_all add: mask_ok_def ndim_def temp_def a'_def np_full_def ex_left_def)
  have three: "length (filter id (mask_bits ex_left)) = 3"
    by (simp add: ex_left_bits)
  have asg: "mask_set temp ex_left True (PArr v) = Inr a'"
  proof -
    have "broadcast_to (3 # tr) (3 # tr) (data v) = Some (data v)"
      using len by (intro broadcast_to_id) simp
    moreover have "take (3 * prod_list tr) (data v) = data v" using len by simp
    moreover have "9 * prod_list tr - 3 * prod_list tr = 6 * prod_list tr" by simp
    ultimately show ?thesis
      using ok(1) three shp cast
      by (simp add: mask_set_def temp_def np_full_def ndim_def ex_left_def [THEN arg_cong, of shape]
          ex_left_bits scatter_cells_prefix a'_def)
  qed
  have idx: "mask_get a' ex_left = Inr v"
  proof -
    have "take (3 * prod_list tr) (data v @ replicate (6 * prod_list tr) seed) = data v"
      using len by simp
    then show ?thesis
      using ok(2) three shp
      by (simp add: mask_get_def a'_def ndim_def ex_left_def [THEN arg_cong, of shape]
          ex_left_bits select_cells_prefix)
  qed
  have set: "domain_setitem (Suc (Suc (Suc d))) s ''pore.seed@left'' (PArr v) = (Inr (), s')"
    using key sp lbl [of "Suc d"] miss np tmp wr get3 asg
    by (simp add: s'_def del: base2_getitem.simps base2_setitem.simps domain_getitem.simps)
  have look: "map_of (items s') ''pore.left'' = Some ex_left" "map_of (items s') ''pore.seed'' = Some a'"
    using label by (simp_all add: s'_def s3_def dict_store_def map_of_dict_update)
  have g1: "domain_getitem (Suc (Suc d)) s' ''pore.seed@left'' = (Inr (RArr v), s')"
    using key sp look idx by simp
  have g2: "domain_getitem (Suc (Suc d)) s' ''pore.seed'' = (Inr (RArr a'), s')"
    using sp look by simp
  show ?thesis
    using set g1 g2 unfolding a'_def seed_def by blast
qed

lemma dict_update_idem: "dict_update k v (dict_update k v kvs) = dict_update k v kvs"
  by (induction kvs) auto

lemma scatter_cells_length:
  "length xs = length bs * n \<Longrightarrow> length ys = length (filter id bs) * n
   \<Longrightarrow> length (scatter_cells n bs xs ys) = length xs"
  by (induction bs arbitrary: xs ys) auto

lemma select_scatter:
  "length xs = length bs * n \<Longrightarrow> length ys = length (filter id bs) * n
   \<Longrightarrow> select_cells n bs (scatter_cells n bs xs ys) = ys"
  by (induction bs arbitrary: xs ys) auto

lemma select_scatter_others:
  "length xs = length bs * n \<Longrightarrow> length ys = length (filter id bs) * n
   \<Longrightarrow> select_cells n (map Not bs) (scatter_cells n bs xs ys) = select_cells n (map Not bs) xs"
  by (induction bs arbitrary: xs ys) auto

lemma scatter_existing:
  assumes label: "map_of (items s) (''pore.'' @ dm) = Some m"
    and mdt: "dtype m = DBool" and mshp: "shape m = [9]" and mlen: "length (data m) = 9"
    and dm: "CHR ''@'' \<notin> set dm" "CHR ''.'' \<notin> set dm" "dm \<noteq> ''seed''"
    and np: "Np s = Inr (Some 9)"
    and present: "map_of (items s) ''pore.seed'' = Some a"
    and adt: "dtype a = dtype v" and ashp: "shape a = 9 # tr"
    and shp: "shape v = length (filter id (mask_bits m)) # tr" and wf: "wf_array v"
  shows "domain_setitem (Suc (Suc (Suc d))) s (''pore.seed@'' @ dm) (PArr v)
         = (Inr (), dict_store s ''pore.seed''
                      (a\<lparr>data := scatter_cells (prod_list tr) (mask_bits m) (data a) (data v)\<rparr>))"
    and "length (data a) = 9 * prod_list tr \<Longrightarrow>
         domain_getitem (Suc (Suc d))
           (dict_store s ''pore.seed''
              (a\<lparr>data := scatter_cells (prod_list tr) (mask_bits m) (data a) (data v)\<rparr>))
           (''pore.seed@'' @ dm)
         = (Inr (RArr v),
            dict_store s ''pore.seed''
              (a\<lparr>data := scatter_cells (prod_list tr) (mask_bits m) (data a) (data v)\<rparr>))"
proof -
  define a' where "a' = a\<lparr>data := scatter_cells (prod_list tr) (mask_bits m) (data a) (data v)\<rparr>"
  define s' where "s' = dict_store s ''pore.seed'' a'"
  define k where "k = length (filter id (mask_bits m))"
  have len: "length (data v) = k * prod_list tr"
    and cast: "map (np_cast (dtype a)) (data v) = data v"
    using wf shp adt by (simp_all add: wf_array_def np_cast_id k_def)
  have key: "str_split CHR ''@'' (''pore.seed@'' @ dm) = [''pore.seed'', dm]"
    "CHR ''@'' \<in> set (''pore.seed@'' @ dm)"
    "last (str_split CHR ''.'' dm) = dm"
    using dm by (simp_all add: str_split_no_sep)
  have sp: "str_split1 CHR ''.'' ''pore.seed'' = [''pore'', ''seed'']"
    "str_split1 CHR ''.'' (''pore.'' @ dm) = [''pore'', dm]"
    by (simp_all add: str_split1_def)
  have lbl: "base2_getitem Domain (Suc j) s (''pore'' @ ''.'' @ dm) = (Inr (RArr m), s)" for j
    using label sp by simp
  have get: "domain_getitem (Suc (Suc d)) s ''pore.seed'' = (Inr (RArr a), s)"
    using present sp by simp
  have ok: "mask_ok a m" "mask_ok a' m"
    using mdt mshp ashp by (simp_all add: mask_ok_def ndim_def a'_def)
  have asg: "mask_set a m False (PArr v) = Inr a'"
  proof -
    have "broadcast_to (k # tr) (k # tr) (data v) = Some (data v)"
      using len by (intro broadcast_to_id) simp
    then show ?thesis
      using ok(1) shp cast mshp ashp
      by (simp add: mask_set_def ndim_def a'_def k_def)
  qed
  have cnt: "base2_count (dict_store s ''pore.seed'' a') ''pore'' = Inr (Some 9)"
    using np ashp by (simp add: Np_def base2_count_def dict_store_def a'_def count_update_same)
  have wback: "domain_setitem (Suc (Suc d)) (dict_store s ''pore.seed'' a') ''pore.seed'' (PArr a')
              = (Inr (), s')"
    using sp cnt ashp
    by (simp add: base2_write_def s'_def a'_def dict_store_def dict_update_idem)
  show "domain_setitem (Suc (Suc (Suc d))) s (''pore.seed@'' @ dm) (PArr v)
         = (Inr (), dict_store s ''pore.seed''
                      (a\<lparr>data := scatter_cells (prod_list tr) (mask_bits m) (data a) (data v)\<rparr>))"
    using key sp(1) lbl [of "Suc d"] get asg wback
    unfolding s'_def a'_def
    by (simp del: base2_getitem.simps base2_setitem.simps domain_getitem.simps
        domain_setitem.simps(2) add: domain_setitem.simps(2) [of "Suc (Suc d)"])
  assume alen: "length (data a) = 9 * prod_list tr"
  have bits: "length (mask_bits m) = 9" using mlen by (simp add: mask_bits_def)
  have sel: "select_cells (prod_list tr) (mask_bits m) (data a') = data v"
    unfolding a'_def using alen bits len by (simp add: select_scatter k_def)
  have idx: "mask_get a' m = Inr v"
    using ok(2) shp adt mshp ashp sel by (simp add: mask_get_def ndim_def a'_def)
  have look: "map_of (items s') (''pore.'' @ dm) = Some m"
    "map_of (items s') ''pore.seed'' = Some a'"
    using label dm(3) by (simp_all add: s'_def dict_store_def map_of_dict_update)
  have lbl': "base2_getitem Domain (Suc j) s' (''pore'' @ ''.'' @ dm) = (Inr (RArr m), s')" for j
    using look(1) sp by simp
  have get': "base2_getitem Domain (Suc j) s' ''pore.seed'' = (Inr (RArr a'), s')" for j
    using look(2) sp by simp
  show "domain_getitem (Suc (Suc d))
           (dict_store s ''pore.seed''
              (a\<lparr>data := scatter_cells (prod_list tr) (mask_bits m) (data a) (data v)\<rparr>))
           (''pore.seed@'' @ dm)
         = (Inr (RArr v),
            dict_store s ''pore.seed''
              (a\<lparr>data := scatter_cells (prod_list tr) (mask_bits m) (data a) (data v)\<rparr>))"
    using key sp(1) lbl' [of d] get' [of d] idx
    unfolding s'_def a'_def
    by (simp del: base2_getitem.simps)
qed

text \<open>
  C4. In a store with nine pores, a domain write to \<^verbatim>\<open>pore.seed\<close> takes one of two paths.

  The first write. With the label \<^verbatim>\<open>pore.left\<close> true on the pores 0, 1, 2, where
  \<^verbatim>\<open>pore.seed\<close> has never been written (and the store is not itself named \<^verbatim>\<open>seed\<close>),
  writing an array \<open>v\<close> of leading length 3 to \<^verbatim>\<open>pore.seed@left\<close> succeeds; afterwards
  \<^verbatim>\<open>pore.seed@left\<close> reads as \<open>v\<close>, and \<^verbatim>\<open>pore.seed\<close> is \<open>v\<close> at the first three pores
  followed by the seed value at the other six: \<^verbatim>\<open>False\<close> for a boolean \<open>v\<close>, NaN
  otherwise.

  Every later write. Where \<^verbatim>\<open>pore.seed\<close> holds an array \<open>a\<close> over the nine pores, writing
  an array \<open>w\<close> of the same dtype and trailing shape to \<^verbatim>\<open>pore.seed@dm\<close>, for any
  label \<^verbatim>\<open>pore.dm\<close> that is a boolean mask over the nine pores and \<open>w\<close> with one row for
  each pore of the mask, succeeds and changes nothing in the store but \<^verbatim>\<open>pore.seed\<close>;
  afterwards \<^verbatim>\<open>pore.seed@dm\<close> reads as \<open>w\<close>, and \<^verbatim>\<open>pore.seed\<close> has the dtype and shape of
  \<open>a\<close>, holds \<open>w\<close> at the pores of the mask and what \<open>a\<close> held at every other pore. So
  a pore that no domain write has selected still holds the seed value of the first
  write. For the mask of \<^verbatim>\<open>pore.left\<close> the new array is \<open>w\<close> followed by the last six
  rows of \<open>a\<close>.
\<close>

theorem scatter_gather:
  "(map_of (items s) ''pore.left'' = Some ex_left
    \<and> Np s = Inr (Some 9)
    \<and> map_of (items s) ''pore.seed'' = None
    \<and> filter (\<lambda>(k, v). startswith k ''pore.seed.'') (items s) = []
    \<and> name s \<noteq> ''seed''
    \<and> shape v = 3 # tr \<and> wf_array v
    \<longrightarrow> (\<exists>s'. domain_setitem (Suc (Suc (Suc d))) s ''pore.seed@left'' (PArr v) = (Inr (), s')
          \<and> domain_getitem (Suc (Suc d)) s' ''pore.seed@left'' = (Inr (RArr v), s')
          \<and> domain_getitem (Suc (Suc d)) s' ''pore.seed''
            = (Inr (RArr \<lparr>dtype = dtype v, shape = 9 # tr,
                          data = data v @ replicate (6 * prod_list tr)
                                            (if dtype v = DBool then PBool False else PNaN)\<rparr>), s')))
 \<and> (map_of (items t) (''pore.'' @ dm) = Some m
    \<and> dtype m = DBool \<and> shape m = [9] \<and> length (data m) = 9
    \<and> CHR ''@'' \<notin> set dm \<and> CHR ''.'' \<notin> set dm \<and> dm \<noteq> ''seed''
    \<and> Np t = Inr (Some 9)
    \<and> map_of (items t) ''pore.seed'' = Some a
    \<and> dtype a = dtype w \<and> shape a = 9 # tw \<and> length (data a) = 9 * prod_list tw
    \<and> shape w = length (filter id (mask_bits m)) # tw \<and> wf_array w
    \<longrightarrow> (\<exists>a'. a' = a\<lparr>data := scatter_cells (prod_list tw) (mask_bits m) (data a) (data w)\<rparr>
          \<and> domain_setitem (Suc (Suc (Suc d))) t (''pore.seed@'' @ dm) (PArr w)
            = (Inr (), dict_store t ''pore.seed'' a')
          \<and> domain_getitem (Suc (Suc d)) (dict_store t ''pore.seed'' a') (''pore.seed@'' @ dm)
            = (Inr (RArr w), dict_store t ''pore.seed'' a')
          \<and> domain_getitem (Suc (Suc d)) (dict_store t ''pore.seed'' a') ''pore.seed''
            = (Inr (RArr a'), dict_store t ''pore.seed'' a')
          \<and> dtype a' = dtype a \<and> shape a' = shape a
          \<and> select_cells (prod_list tw) (mask_bits m) (data a') = data w
          \<and> select_cells (prod_list tw) (map Not (mask_bits m)) (data a')
            = select_cells (prod_list tw) (map Not (mask_bits m)) (data a)
          \<and> (m = ex_left \<longrightarrow> data a' = data w @ drop (3 * prod_list tw) (data a))))"
proof (intro conjI impI; (elim conjE)?)
  assume "map_of (items s) ''pore.left'' = Some ex_left" and "Np s = Inr (Some 9)"
    and "map_of (items s) ''pore.seed'' = None"
    and "filter (\<lambda>(k, v). startswith k ''pore.seed.'') (items s) = []"
    and "name s \<noteq> ''seed''" and "shape v = 3 # tr" and "wf_array v"
  then show "\<exists>s'. domain_setitem (Suc (Suc (Suc d))) s ''pore.seed@left'' (PArr v) = (Inr (), s')
          \<and> domain_getitem (Suc (Suc d)) s' ''pore.seed@left'' = (Inr (RArr v), s')
          \<and> domain_getitem (Suc (Suc d)) s' ''pore.seed''
            = (Inr (RArr \<lparr>dtype = dtype v, shape = 9 # tr,
                          data = data v @ replicate (6 * prod_list tr)
                                            (if dtype v = DBool then PBool False else PNaN)\<rparr>), s')"
    by (rule scatter_fresh)
next
  assume label: "map_of (items t) (''pore.'' @ dm) = Some m"
    and mdt: "dtype m = DBool" and mshp: "shape m = [9]" and mlen: "length (data m) = 9"
    and dm: "CHR ''@'' \<notin> set dm" "CHR ''.'' \<notin> set dm" "dm \<noteq> ''seed''"
    and np: "Np t = Inr (Some 9)"
    and present: "map_of (items t) ''pore.seed'' = Some a"
    and adt: "dtype a = dtype w" and ashp: "shape a = 9 # tw"
    and alen: "length (data a) = 9 * prod_list tw"
    and shp: "shape w = length (filter id (mask_bits m)) # tw" and wf: "wf_array w"
  define a' where "a' = a\<lparr>data := scatter_cells (prod_list tw) (mask_bits m) (data a) (data w)\<rparr>"
  have bits: "length (mask_bits m) = 9" using mlen by (simp add: mask_bits_def)
  have len: "length (data w) = length (filter id (mask_bits m)) * prod_list tw"
    using wf shp by (simp add: wf_array_def)
  have xs: "length (data a) = length (mask_bits m) * prod_list tw" using alen bits by simp
  have 1: "domain_setitem (Suc (Suc (Suc d))) t (''pore.seed@'' @ dm) (PArr w)
            = (Inr (), dict_store t ''pore.seed'' a')"
    unfolding a'_def
    using label mdt mshp mlen dm np present adt ashp shp wf by (rule scatter_existing(1))
  have 2: "domain_getitem (Suc (Suc d)) (dict_store t ''pore.seed'' a') (''pore.seed@'' @ dm)
            = (Inr (RArr w), dict_store t ''pore.seed'' a')"
    unfolding a'_def
    using label mdt mshp mlen dm np present adt ashp shp wf alen by (rule scatter_existing(2))
  have 3: "domain_getitem (Suc (Suc d)) (dict_store t ''pore.seed'' a') ''pore.seed''
            = (Inr (RArr a'), dict_store t ''pore.seed'' a')"
    by (simp add: str_split1_def dict_store_def map_of_dict_update)
  have 4: "dtype a' = dtype a" "shape a' = shape a" by (simp_all add: a'_def)
  have 5: "select_cells (prod_list tw) (mask_bits m) (data a') = data w"
    unfolding a'_def using xs len by (simp add: select_scatter)
  have 6: "select_cells (prod_list tw) (map Not (mask_bits m)) (data a')
            = select_cells (prod_list tw) (map Not (mask_bits m)) (data a)"
    unfolding a'_def using xs len by (simp add: select_scatter_others)
  have 7: "data a' = data w @ drop (3 * prod_list tw) (data a)" if "m = ex_left"
  proof -
    from that len have "length (data w) = 3 * prod_list tw" by (simp add: ex_left_bits)
    then show ?thesis
      unfolding a'_def using that by (simp add: ex_left_bits scatter_cells_prefix)
  qed
  show "\<exists>a'. a' = a\<lparr>data := scatter_cells (prod_list tw) (mask_bits m) (data a) (data w)\<rparr>
          \<and> domain_setitem (Suc (Suc (Suc d))) t (''pore.seed@'' @ dm) (PArr w)
            = (Inr (), dict_store t ''pore.seed'' a')
          \<and> domain_getitem (Suc (Suc d)) (dict_store t ''pore.seed'' a') (''pore.seed@'' @ dm)
            = (Inr (RArr w), dict_store t ''pore.seed'' a')
          \<and> domain_getitem (Suc (Suc d)) (dict_store t ''pore.seed'' a') ''pore.seed''
            = (Inr (RArr a'), dict_store t ''pore.seed'' a')
          \<and> dtype a' = dtype a \<and> shape a' = shape a
          \<and> select_cells (prod_list tw) (mask_bits m) (data a') = data w
          \<and> select_cells (prod_list tw) (map Not (mask_bits m)) (data a')
            = select_cells (prod_list tw) (map Not (mask_bits m)) (data a)
          \<and> (m = ex_left \<longrightarrow> data a' = data w @ drop (3 * prod_list tw) (data a))"
    using 1 2 3 4 5 6 7 a'_def by blast
qed

theorem scatter_gather_witness:
  "map_of (items ex_store) ''pore.left'' = Some ex_left
   \<and> Np ex_store = Inr (Some 9)
   \<and> map_of (items ex_store) ''pore.seed'' = None
   \<and> filter (\<lambda>(k, v). startswith k ''pore.seed.'') (items ex_store) = []
   \<and> name ex_store \<noteq> ''seed''
   \<and> wf_array \<lparr>dtype = DFloat, shape = [3], data = [PFloat 1, PFloat 2, PFloat 3]\<rparr>
   \<and> (\<exists>s'. domain_setitem (Suc (Suc (Suc 0))) ex_store ''pore.seed@left''
              (PArr \<lparr>dtype = DFloat, shape = [3], data = [PFloat 1, PFloat 2, PFloat 3]\<rparr>)
            = (Inr (), s')
          \<and> domain_getitem (Suc (Suc 0)) s' ''pore.seed@left''
            = (Inr (RArr \<lparr>dtype = DFloat, shape = [3], data = [PFloat 1, PFloat 2, PFloat 3]\<rparr>), s')
          \<and> domain_getitem (Suc (Suc 0)) s' ''pore.seed''
            = (Inr (RArr \<lparr>dtype = DFloat, shape = [9],
                          data = [PFloat 1, PFloat 2, PFloat 3, PNaN, PNaN, PNaN, PNaN, PNaN, PNaN]\<rparr>),
               s'))
   \<and> map_of (items ex_seeded) ''pore.right'' = Some ex_right
   \<and> Np ex_seeded = Inr (Some 9)
   \<and> map_of (items ex_seeded) ''pore.seed''
       = Some \<lparr>dtype = DFloat, shape = [9],
               data = [PFloat 1, PFloat 2, PFloat 3, PNaN, PNaN, PNaN, PNaN, PNaN, PNaN]\<rparr>
   \<and> length (filter id (mask_bits ex_right)) = 3
   \<and> wf_array \<lparr>dtype = DFloat, shape = [3], data = [PFloat 7, PFloat 8, PFloat 9]\<rparr>
   \<and> domain_setitem (Suc (Suc (Suc 0))) ex_seeded ''pore.seed@right''
        (PArr \<lparr>dtype = DFloat, shape = [3], data = [PFloat 7, PFloat 8, PFloat 9]\<rparr>)
      = (Inr (), dict_store ex_seeded ''pore.seed''
                   \<lparr>dtype = DFloat, shape = [9],
                    data = [PFloat 1, PFloat 2, PFloat 3, PNaN, PNaN, PNaN, PFloat 7, PFloat 8, PFloat 9]\<rparr>)
   \<and> domain_getitem (Suc (Suc 0))
        (dict_store ex_seeded ''pore.seed''
           \<lparr>dtype = DFloat, shape = [9],
            data = [PFloat 1, PFloat 2, PFloat 3, PNaN, PNaN, PNaN, PFloat 7, PFloat 8, PFloat 9]\<rparr>)
        ''pore.seed@right''
      = (Inr (RArr \<lparr>dtype = DFloat, shape = [3], data = [PFloat 7, PFloat 8, PFloat 9]\<rparr>),
         dict_store ex_seeded ''pore.seed''
           \<lparr>dtype = DFloat, shape = [9],
            data = [PFloat 1, PFloat 2, PFloat 3, PNaN, PNaN, PNaN, PFloat 7, PFloat 8, PFloat 9]\<rparr>)"
proof -
  have h1: "map_of (items ex_store) ''pore.left'' = Some ex_left" by (simp add: ex_store_def)
  have h2: "Np ex_store = Inr (Some 9)"
    by (simp add: Np_def base2_count_def ex_store_def np_full_def)
  have h3: "map_of (items ex_store) ''pore.seed'' = None" by (simp add: ex_store_def)
  have h4: "filter (\<lambda>(k, v). startswith k ''pore.seed.'') (items ex_store) = []"
    by (simp add: ex_store_def)
  have h5: "name ex_store \<noteq> ''seed''" by (simp add: ex_store_def)
  have h6: "shape \<lparr>dtype = DFloat, shape = [3], data = [PFloat 1, PFloat 2, PFloat 3]\<rparr> = [3]"
    by simp
  have h7: "wf_array \<lparr>dtype = DFloat, shape = [3], data = [PFloat 1, PFloat 2, PFloat 3]\<rparr>"
    by (simp add: wf_array_def)
  have k1: "map_of (items ex_seeded) (''pore.'' @ ''right'') = Some ex_right"
    by (simp add: ex_seeded_def)
  have k2: "dtype ex_right = DBool" "shape ex_right = [9]" "length (data ex_right) = 9"
    "CHR ''@'' \<notin> set ''right''" "CHR ''.'' \<notin> set ''right''" "''right'' \<noteq> ''seed''"
    by (simp_all add: ex_right_def)
  have k3: "Np ex_seeded = Inr (Some 9)"
    by (simp add: Np_def base2_count_def ex_seeded_def np_full_def)
  have k4: "map_of (items ex_seeded) ''pore.seed''
       = Some \<lparr>dtype = DFloat, shape = [9],
               data = [PFloat 1, PFloat 2, PFloat 3, PNaN, PNaN, PNaN, PNaN, PNaN, PNaN]\<rparr>"
    by (simp add: ex_seeded_def)
  have k5: "mask_bits ex_right = [False, False, False, False, False, False, True, True, True]"
    by (simp add: mask_bits_def ex_right_def)
  have k6: "wf_array \<lparr>dtype = DFloat, shape = [3], data = [PFloat 7, PFloat 8, PFloat 9]\<rparr>"
    by (simp add: wf_array_def)
  have k7: "ex_right \<noteq> ex_left" by (simp add: ex_right_def ex_left_def)
  show ?thesis
    using scatter_gather [of ex_store
        "\<lparr>dtype = DFloat, shape = [3], data = [PFloat 1, PFloat 2, PFloat 3]\<rparr>" "[]" 0
        ex_seeded "''right''" ex_right
        "\<lparr>dtype = DFloat, shape = [9],
          data = [PFloat 1, PFloat 2, PFloat 3, PNaN, PNaN, PNaN, PNaN, PNaN, PNaN]\<rparr>"
        "\<lparr>dtype = DFloat, shape = [3], data = [PFloat 7, PFloat 8, PFloat 9]\<rparr>" "[]"]
      h1 h2 h3 h4 h5 h7 k1 k2 k3 k4 k5 k6 k7
    by (simp add: eval_nat_numeral
        del: domain_setitem.simps domain_getitem.simps)
qed

section \<open>Leading lengths under reads, writes and deletes\<close>

lemma count_update_fresh:
  "\<forall>(k, v) \<in> set kvs. \<not> startswith k e \<Longrightarrow>
   count_items e (dict_update key a kvs)
   = (if startswith key e then (case shape a of [] \<Rightarrow> Inl IndexError | n # _ \<Rightarrow> Inr (Some n))
      else Inr None)"
  by (induction key a kvs rule: dict_update.induct) (auto simp: count_items_None)

lemma set_dict_update: "set (dict_update k v kvs) \<subseteq> insert (k, v) (set kvs)"
  by (induction k v kvs rule: dict_update.induct) auto

lemma agree_update_same:
  assumes "lengths_agree s e" and "base2_count s e = Inr (Some n)" and "shape a = n # tr"
  shows "lengths_agree (dict_store s key a) e"
proof -
  have "base2_count (dict_store s key a) e = Inr (Some n)"
    using assms(2,3) by (simp add: base2_count_def dict_store_def count_update_same)
  then show ?thesis
    using assms by (simp add: lengths_agree_def dict_store_def list_all_dict_update)
qed

lemma agree_update_other:
  assumes "lengths_agree s e" and "\<not> startswith key e"
  shows "lengths_agree (dict_store s key a) e"
proof -
  have "base2_count (dict_store s key a) e = base2_count s e"
    using assms(2) by (simp add: base2_count_def dict_store_def count_update_other)
  then show ?thesis
    using assms
    by (auto simp: lengths_agree_def dict_store_def list_all_dict_update split: sum.splits option.splits)
qed

lemma agree_update_fresh:
  assumes "base2_count s e = Inr None"
  shows "lengths_agree (dict_store s key a) e"
proof -
  from assms have none: "\<forall>(k, v) \<in> set (items s). \<not> startswith k e"
    by (simp add: base2_count_def count_items_None)
  have cnt: "base2_count (dict_store s key a) e
             = (if startswith key e then (case shape a of [] \<Rightarrow> Inl IndexError | n # _ \<Rightarrow> Inr (Some n))
                else Inr None)"
    using none by (simp add: base2_count_def dict_store_def count_update_fresh)
  have only: "k = key \<and> v = a"
    if "(k, v) \<in> set (dict_update key a (items s))" "startswith k e" for k v
    using that none set_dict_update [of key a "items s"] by auto
  show ?thesis
    unfolding lengths_agree_def cnt
    by (auto simp: dict_store_def list_all_iff split: list.splits dest: only)
qed

lemma kind_prefix:
  assumes "str_split1 CHR ''.'' key = [element, rest]"
  shows "element = ''pore'' \<Longrightarrow> \<not> startswith key ''throat''"
    and "element = ''throat'' \<Longrightarrow> \<not> startswith key ''pore''"
  using str_split1_two(1) [OF assms] by auto

lemma ones_times_shape:
  assumes "shape a = [1]"
  shows "\<exists>b. ones_times n a = Inr b \<and> shape b = [n]"
  using assms by (auto simp: ones_times_def broadcast_shapes_def broadcast_to_def)

lemma base2_write_lengths:
  assumes ok: "lengths_ok s"
    and sp: "str_split1 CHR ''.'' key = [element, rest]"
    and ex: "key \<noteq> ''pore.coords''" "key \<noteq> ''throat.conns''"
    and flat: "\<And>l tr. shape a \<noteq> 1 # l # tr"
  shows "lengths_ok (snd (base2_write s key element a))"
proof (cases "element = ''pore'' \<or> element = ''throat''")
  case False
  then show ?thesis using ok by (simp add: base2_write_def)
next
  case True
  define other where "other = (if element = ''pore'' then ''throat'' else ''pore'')"
  have both: "lengths_ok t \<longleftrightarrow> lengths_agree t element \<and> lengths_agree t other" for t
    using True by (auto simp: lengths_ok_def other_def)
  have no_other: "\<not> startswith key other"
    using True kind_prefix [OF sp] by (auto simp: other_def)
  have keep: "lengths_agree (dict_store s key b) other" for b
    using ok no_other by (simp add: both agree_update_other)
  show ?thesis
  proof (cases "base2_count s element")
    case (Inl e)
    then show ?thesis using ok True ex by (simp add: base2_write_def)
  next
    case (Inr c)
    show ?thesis
    proof (cases c)
      case None
      then show ?thesis
        using Inr True ex keep by (simp add: base2_write_def both agree_update_fresh)
    next
      case (Some n)
      have same: "lengths_agree (dict_store s key b) element" if "shape b = n # tr" for b tr
        using ok Inr Some that by (simp add: both agree_update_same)
      show ?thesis
      proof (cases "shape a")
        case Nil
        then show ?thesis using ok Inr Some True ex by (simp add: base2_write_def)
      next
        case (Cons l tr)
        show ?thesis
        proof (cases "l = 1")
          case l1: True
          with Cons flat have "shape a = [1]" by (cases tr) auto
          from ones_times_shape [OF this, of n] obtain b
            where b: "ones_times n a = Inr b" "shape b = [n]" by blast
          show ?thesis
            using Inr Some True ex Cons l1 b keep same [of b "[]"]
            by (simp add: base2_write_def both)
        next
          case False
          then show ?thesis
            using ok Inr Some True ex Cons keep same [of a tr]
            by (simp add: base2_write_def both)
        qed
      qed
    qed
  qed
qed

lemma base2_setitem_lengths:
  assumes ok: "lengths_ok s"
    and ex: "key \<noteq> ''pore.coords''" "key \<noteq> ''throat.conns''"
    and nodict: "\<And>kvs. val \<noteq> PDict kvs"
    and flat: "\<And>a l tr. val = PArr a \<Longrightarrow> shape a \<noteq> 1 # l # tr"
  shows "lengths_ok (snd (base2_setitem cls d s key val))"
proof (cases d)
  case 0
  then show ?thesis using ok by simp
next
  case (Suc d')
  show ?thesis
  proof (cases val)
    case PNone
    then show ?thesis using ok Suc by simp
  next
    case (PScalar x)
    have "shape (np_array_ndmin1 x) \<noteq> 1 # l # tr" for l tr
      by (simp add: np_array_ndmin1_def)
    then show ?thesis
      using ok ex Suc PScalar base2_write_lengths [of s key _ _ "np_array_ndmin1 x"]
      by (auto split: list.splits)
  next
    case (PArr a)
    then show ?thesis
      using ok ex Suc flat [OF PArr] base2_write_lengths [of s key _ _ a]
      by (auto split: list.splits)
  next
    case (PDict kvs)
    then show ?thesis using nodict by simp
  qed
qed

lemma base2_getitem_unfold:
  "base2_getitem cls (Suc d) s key =
     (case str_split1 CHR ''.'' key of
        [element, prop] \<Rightarrow>
          (case map_of (items s) key of
             Some a \<Rightarrow> (Inr (RArr a), s)
           | None \<Rightarrow>
               if str_split CHR ''.'' key ! 1 = name s then
                 (case Np s of
                    Inl e \<Rightarrow> (Inl e, s)
                  | Inr np \<Rightarrow>
                      (case self_setitem cls d s (''pore.'' @ name s) (PArr (np_ones_bool np)) of
                         (Inl e, s1) \<Rightarrow> (Inl e, s1)
                       | (Inr _, s1) \<Rightarrow>
                           (case Nt s1 of
                              Inl e \<Rightarrow> (Inl e, s1)
                            | Inr nt \<Rightarrow>
                                (case self_setitem cls d s1 (''throat.'' @ name s1) (PArr (np_ones_bool nt)) of
                                   (Inl e, s2) \<Rightarrow> (Inl e, s2)
                                 | (Inr _, s2) \<Rightarrow> self_getitem cls d s2 key))))
               else
                 (let vals = filter (\<lambda>(k, v). startswith k (key @ ''.'')) (items s)
                  in if length vals > 0 then (Inr (RGroup vals), s) else (Inl (KeyError key), s)))
      | _ \<Rightarrow> (Inl ValueError, s))"
  unfolding self_setitem_def self_getitem_def by (rule base2_getitem.simps(2))

lemma setitem_each_unfold:
  "setitem_each cls d s key ((k, v) # kvs) =
     (case self_setitem cls d s (key @ ''.'' @ k) v of
        (Inl e, s1) \<Rightarrow> (Inl e, s1)
      | (Inr _, s1) \<Rightarrow> setitem_each cls d s1 key kvs)"
  unfolding self_setitem_def by (rule setitem_each.simps(2))

lemma domain_setitem_unfold:
  "domain_setitem (Suc d) s key value =
     (if CHR ''@'' \<in> set key then
        (case str_split1 CHR ''.'' (str_split CHR ''@'' key ! 0) of
           [element, prop] \<Rightarrow>
             (case base2_getitem Domain d s
                     (element @ ''.'' @ last (str_split CHR ''.'' (str_split CHR ''@'' key ! 1))) of
                (Inl e, s1) \<Rightarrow> (Inl e, s1)
              | (Inr locs, s1) \<Rightarrow>
                  (case domain_getitem d s1 (element @ ''.'' @ prop) of
                     (Inr vals, s2) \<Rightarrow>
                       (case py_assign vals locs False value of
                          Inl e \<Rightarrow> (Inl e, s2)
                        | Inr a \<Rightarrow>
                            domain_setitem d (dict_store s2 (element @ ''.'' @ prop) a)
                              (element @ ''.'' @ prop) (PArr a))
                   | (Inl (KeyError k), s2) \<Rightarrow>
                       (case Np s2 of
                          Inl e \<Rightarrow> (Inl e, s2)
                        | Inr None \<Rightarrow> (Inl TypeError, s2)
                        | Inr (Some np) \<Rightarrow>
                            (case base2_setitem Domain d s2 (element @ ''.'' @ prop)
                                    (PArr (seed_array np value)) of
                               (Inl e, s3) \<Rightarrow> (Inl e, s3)
                             | (Inr _, s3) \<Rightarrow>
                                 (case domain_getitem d s3 (element @ ''.'' @ prop) of
                                    (Inl e, s4) \<Rightarrow> (Inl e, s4)
                                  | (Inr vals, s4) \<Rightarrow>
                                      (case py_assign vals locs True value of
                                         Inl e \<Rightarrow> (Inl e, s4)
                                       | Inr a \<Rightarrow> (Inr (), dict_store s4 (element @ ''.'' @ prop) a)))))
                   | (Inl e, s2) \<Rightarrow> (Inl e, s2)))
         | _ \<Rightarrow> (Inl ValueError, s))
      else base2_setitem Domain d s key value)"
  unfolding seed_array_def by (rule domain_setitem.simps(2))

lemma base2_getitem_cases:
  assumes bad: "(\<And>e p. str_split1 CHR ''.'' key \<noteq> [e, p]) \<Longrightarrow> P (Inl ValueError, s)"
    and present: "\<And>e p a. str_split1 CHR ''.'' key = [e, p] \<Longrightarrow> map_of (items s) key = Some a
        \<Longrightarrow> P (Inr (RArr a), s)"
    and group: "\<And>e p. str_split1 CHR ''.'' key = [e, p] \<Longrightarrow> map_of (items s) key = None
        \<Longrightarrow> str_split CHR ''.'' key ! 1 \<noteq> name s
        \<Longrightarrow> filter (\<lambda>(k, v). startswith k (key @ ''.'')) (items s) \<noteq> []
        \<Longrightarrow> P (Inr (RGroup (filter (\<lambda>(k, v). startswith k (key @ ''.'')) (items s))), s)"
    and miss: "\<And>e p. str_split1 CHR ''.'' key = [e, p] \<Longrightarrow> map_of (items s) key = None
        \<Longrightarrow> str_split CHR ''.'' key ! 1 \<noteq> name s
        \<Longrightarrow> filter (\<lambda>(k, v). startswith k (key @ ''.'')) (items s) = []
        \<Longrightarrow> P (Inl (KeyError key), s)"
    and np_err: "\<And>e p x. str_split1 CHR ''.'' key = [e, p] \<Longrightarrow> map_of (items s) key = None
        \<Longrightarrow> str_split CHR ''.'' key ! 1 = name s \<Longrightarrow> Np s = Inl x \<Longrightarrow> P (Inl x, s)"
    and w1_err: "\<And>e p np x s1. str_split1 CHR ''.'' key = [e, p] \<Longrightarrow> map_of (items s) key = None
        \<Longrightarrow> str_split CHR ''.'' key ! 1 = name s \<Longrightarrow> Np s = Inr np
        \<Longrightarrow> self_setitem cls d s (''pore.'' @ name s) (PArr (np_ones_bool np)) = (Inl x, s1)
        \<Longrightarrow> P (Inl x, s1)"
    and nt_err: "\<And>e p np s1 x. str_split1 CHR ''.'' key = [e, p] \<Longrightarrow> map_of (items s) key = None
        \<Longrightarrow> str_split CHR ''.'' key ! 1 = name s \<Longrightarrow> Np s = Inr np
        \<Longrightarrow> self_setitem cls d s (''pore.'' @ name s) (PArr (np_ones_bool np)) = (Inr (), s1)
        \<Longrightarrow> Nt s1 = Inl x \<Longrightarrow> P (Inl x, s1)"
    and w2_err: "\<And>e p np s1 nt x s2. str_split1 CHR ''.'' key = [e, p] \<Longrightarrow> map_of (items s) key = None
        \<Longrightarrow> str_split CHR ''.'' key ! 1 = name s \<Longrightarrow> Np s = Inr np
        \<Longrightarrow> self_setitem cls d s (''pore.'' @ name s) (PArr (np_ones_bool np)) = (Inr (), s1)
        \<Longrightarrow> Nt s1 = Inr nt
        \<Longrightarrow> self_setitem cls d s1 (''throat.'' @ name s1) (PArr (np_ones_bool nt)) = (Inl x, s2)
        \<Longrightarrow> P (Inl x, s2)"
    and retry: "\<And>e p np s1 nt s2. str_split1 CHR ''.'' key = [e, p] \<Longrightarrow> map_of (items s) key = None
        \<Longrightarrow> str_split CHR ''.'' key ! 1 = name s \<Longrightarrow> Np s = Inr np
        \<Longrightarrow> self_setitem cls d s (''pore.'' @ name s) (PArr (np_ones_bool np)) = (Inr (), s1)
        \<Longrightarrow> Nt s1 = Inr nt
        \<Longrightarrow> self_setitem cls d s1 (''throat.'' @ name s1) (PArr (np_ones_bool nt)) = (Inr (), s2)
        \<Longrightarrow> P (self_getitem cls d s2 key)"
  shows "P (base2_getitem cls (Suc d) s key)"
proof (cases "\<exists>e p. str_split1 CHR ''.'' key = [e, p]")
  case False
  then have "base2_getitem cls (Suc d) s key = (Inl ValueError, s)"
    by (auto split: list.splits)
  with False bad show ?thesis by auto
next
  case True
  then obtain e p where sp: "str_split1 CHR ''.'' key = [e, p]" by blast
  show ?thesis
  proof (cases "map_of (items s) key")
    case (Some a)
    with sp present [OF sp Some] show ?thesis by simp
  next
    case None
    show ?thesis
    proof (cases "str_split CHR ''.'' key ! 1 = name s")
      case False
      with sp None group [OF sp None] miss [OF sp None] show ?thesis
        by (simp add: Let_def)
    next
      case nm: True
      show ?thesis
      proof (cases "Np s")
        case (Inl x)
        with sp None nm np_err [OF sp None nm Inl] show ?thesis by simp
      next
        case (Inr np)
        obtain r1 s1 where c1: "self_setitem cls d s (''pore.'' @ name s) (PArr (np_ones_bool np)) = (r1, s1)"
          by force
        have u1: "base2_getitem cls (Suc d) s key =
            (case r1 of Inl x \<Rightarrow> (Inl x, s1)
             | Inr _ \<Rightarrow>
                 (case Nt s1 of
                    Inl x \<Rightarrow> (Inl x, s1)
                  | Inr nt \<Rightarrow>
                      (case self_setitem cls d s1 (''throat.'' @ name s1) (PArr (np_ones_bool nt)) of
                         (Inl x, s2) \<Rightarrow> (Inl x, s2)
                       | (Inr _, s2) \<Rightarrow> self_getitem cls d s2 key)))"
          unfolding base2_getitem_unfold using sp None nm Inr c1
          by (cases r1) simp_all
        show ?thesis
        proof (cases r1)
          case (Inl x)
          with u1 c1 w1_err [OF sp None nm Inr] show ?thesis by simp
        next
          case r1: (Inr u)
          show ?thesis
          proof (cases "Nt s1")
            case (Inl x)
            with u1 r1 c1 nt_err [OF sp None nm Inr _ Inl] show ?thesis by simp
          next
            case nt: (Inr nt)
            obtain r2 s2 where c2: "self_setitem cls d s1 (''throat.'' @ name s1) (PArr (np_ones_bool nt)) = (r2, s2)"
              by force
            show ?thesis
            proof (cases r2)
              case (Inl x)
              with u1 r1 nt c1 c2 w2_err [OF sp None nm Inr _ nt] show ?thesis by simp
            next
              case (Inr u2)
              with u1 r1 nt c1 c2 retry [OF sp None nm \<open>Np s = Inr np\<close> _ nt] show ?thesis by simp
            qed
          qed
        qed
      qed
    qed
  qed
qed

lemma domain_getitem_cases:
  assumes noat: "CHR ''@'' \<notin> set key \<Longrightarrow> P (base2_getitem Domain d s key)"
    and bad: "CHR ''@'' \<in> set key
        \<Longrightarrow> (\<And>e p. str_split1 CHR ''.'' (str_split CHR ''@'' key ! 0) \<noteq> [e, p])
        \<Longrightarrow> P (Inl ValueError, s)"
    and lbl_err: "\<And>e p x s1. CHR ''@'' \<in> set key
        \<Longrightarrow> str_split1 CHR ''.'' (str_split CHR ''@'' key ! 0) = [e, p]
        \<Longrightarrow> base2_getitem Domain d s
              (e @ ''.'' @ last (str_split CHR ''.'' (str_split CHR ''@'' key ! 1))) = (Inl x, s1)
        \<Longrightarrow> P (Inl x, s1)"
    and get_err: "\<And>e p locs s1 x s2. CHR ''@'' \<in> set key
        \<Longrightarrow> str_split1 CHR ''.'' (str_split CHR ''@'' key ! 0) = [e, p]
        \<Longrightarrow> base2_getitem Domain d s
              (e @ ''.'' @ last (str_split CHR ''.'' (str_split CHR ''@'' key ! 1))) = (Inr locs, s1)
        \<Longrightarrow> base2_getitem Domain d s1 (e @ ''.'' @ p) = (Inl x, s2)
        \<Longrightarrow> P (Inl x, s2)"
    and idx: "\<And>e p locs s1 vals s2. CHR ''@'' \<in> set key
        \<Longrightarrow> str_split1 CHR ''.'' (str_split CHR ''@'' key ! 0) = [e, p]
        \<Longrightarrow> base2_getitem Domain d s
              (e @ ''.'' @ last (str_split CHR ''.'' (str_split CHR ''@'' key ! 1))) = (Inr locs, s1)
        \<Longrightarrow> base2_getitem Domain d s1 (e @ ''.'' @ p) = (Inr vals, s2)
        \<Longrightarrow> P (py_index vals locs, s2)"
  shows "P (domain_getitem (Suc d) s key)"
proof (cases "CHR ''@'' \<in> set key")
  case False
  with noat show ?thesis by simp
next
  case at: True
  show ?thesis
  proof (cases "\<exists>e p. str_split1 CHR ''.'' (str_split CHR ''@'' key ! 0) = [e, p]")
    case False
    with at have "domain_getitem (Suc d) s key = (Inl ValueError, s)"
      by (auto split: list.splits)
    with False bad [OF at] show ?thesis by auto
  next
    case True
    then obtain e p where sp: "str_split1 CHR ''.'' (str_split CHR ''@'' key ! 0) = [e, p]"
      by blast
    obtain r1 s1 where c1: "base2_getitem Domain d s
        (e @ ''.'' @ last (str_split CHR ''.'' (str_split CHR ''@'' key ! 1))) = (r1, s1)"
      by force
    obtain r2 s2 where c2: "base2_getitem Domain d s1 (e @ ''.'' @ p) = (r2, s2)"
      by force
    show ?thesis
    proof (cases r1)
      case (Inl x)
      with at sp c1 lbl_err [OF at sp] show ?thesis
        by (simp del: base2_getitem.simps)
    next
      case r1: (Inr locs)
      show ?thesis
      proof (cases r2)
        case (Inl x)
        with at sp c1 r1 c2 get_err [OF at sp] show ?thesis
          by (simp del: base2_getitem.simps)
      next
        case (Inr vals)
        with at sp c1 r1 c2 idx [OF at sp] show ?thesis
          by (simp del: base2_getitem.simps)
      qed
    qed
  qed
qed

lemma domain_setitem_cases:
  assumes noat: "CHR ''@'' \<notin> set key \<Longrightarrow> P (base2_setitem Domain d s key val)"
    and bad: "CHR ''@'' \<in> set key
        \<Longrightarrow> (\<And>e p. str_split1 CHR ''.'' (str_split CHR ''@'' key ! 0) \<noteq> [e, p])
        \<Longrightarrow> P (Inl ValueError, s)"
    and lbl_err: "\<And>e p x s1. CHR ''@'' \<in> set key
        \<Longrightarrow> str_split1 CHR ''.'' (str_split CHR ''@'' key ! 0) = [e, p]
        \<Longrightarrow> base2_getitem Domain d s
              (e @ ''.'' @ last (str_split CHR ''.'' (str_split CHR ''@'' key ! 1))) = (Inl x, s1)
        \<Longrightarrow> P (Inl x, s1)"
    and get_err: "\<And>e p locs s1 x s2. CHR ''@'' \<in> set key
        \<Longrightarrow> str_split1 CHR ''.'' (str_split CHR ''@'' key ! 0) = [e, p]
        \<Longrightarrow> base2_getitem Domain d s
              (e @ ''.'' @ last (str_split CHR ''.'' (str_split CHR ''@'' key ! 1))) = (Inr locs, s1)
        \<Longrightarrow> domain_getitem d s1 (e @ ''.'' @ p) = (Inl x, s2)
        \<Longrightarrow> (\<And>k. x \<noteq> KeyError k)
        \<Longrightarrow> P (Inl x, s2)"
    and asg_err: "\<And>e p locs s1 vals s2 x. CHR ''@'' \<in> set key
        \<Longrightarrow> str_split1 CHR ''.'' (str_split CHR ''@'' key ! 0) = [e, p]
        \<Longrightarrow> base2_getitem Domain d s
              (e @ ''.'' @ last (str_split CHR ''.'' (str_split CHR ''@'' key ! 1))) = (Inr locs, s1)
        \<Longrightarrow> domain_getitem d s1 (e @ ''.'' @ p) = (Inr vals, s2)
        \<Longrightarrow> py_assign vals locs False val = Inl x
        \<Longrightarrow> P (Inl x, s2)"
    and wback: "\<And>e p locs s1 vals s2 a. CHR ''@'' \<in> set key
        \<Longrightarrow> str_split1 CHR ''.'' (str_split CHR ''@'' key ! 0) = [e, p]
        \<Longrightarrow> base2_getitem Domain d s
              (e @ ''.'' @ last (str_split CHR ''.'' (str_split CHR ''@'' key ! 1))) = (Inr locs, s1)
        \<Longrightarrow> domain_getitem d s1 (e @ ''.'' @ p) = (Inr vals, s2)
        \<Longrightarrow> py_assign vals locs False val = Inr a
        \<Longrightarrow> P (domain_setitem d (dict_store s2 (e @ ''.'' @ p) a) (e @ ''.'' @ p) (PArr a))"
    and np_err: "\<And>e p locs s1 k s2 x. CHR ''@'' \<in> set key
        \<Longrightarrow> str_split1 CHR ''.'' (str_split CHR ''@'' key ! 0) = [e, p]
        \<Longrightarrow> base2_getitem Domain d s
              (e @ ''.'' @ last (str_split CHR ''.'' (str_split CHR ''@'' key ! 1))) = (Inr locs, s1)
        \<Longrightarrow> domain_getitem d s1 (e @ ''.'' @ p) = (Inl (KeyError k), s2)
        \<Longrightarrow> Np s2 = Inl x
        \<Longrightarrow> P (Inl x, s2)"
    and np_none: "\<And>e p locs s1 k s2. CHR ''@'' \<in> set key
        \<Longrightarrow> str_split1 CHR ''.'' (str_split CHR ''@'' key ! 0) = [e, p]
        \<Longrightarrow> base2_getitem Domain d s
              (e @ ''.'' @ last (str_split CHR ''.'' (str_split CHR ''@'' key ! 1))) = (Inr locs, s1)
        \<Longrightarrow> domain_getitem d s1 (e @ ''.'' @ p) = (Inl (KeyError k), s2)
        \<Longrightarrow> Np s2 = Inr None
        \<Longrightarrow> P (Inl TypeError, s2)"
    and seed_err: "\<And>e p locs s1 k s2 np x s3. CHR ''@'' \<in> set key
        \<Longrightarrow> str_split1 CHR ''.'' (str_split CHR ''@'' key ! 0) = [e, p]
        \<Longrightarrow> base2_getitem Domain d s
              (e @ ''.'' @ last (str_split CHR ''.'' (str_split CHR ''@'' key ! 1))) = (Inr locs, s1)
        \<Longrightarrow> domain_getitem d s1 (e @ ''.'' @ p) = (Inl (KeyError k), s2)
        \<Longrightarrow> Np s2 = Inr (Some np)
        \<Longrightarrow> base2_setitem Domain d s2 (e @ ''.'' @ p) (PArr (seed_array np val)) = (Inl x, s3)
        \<Longrightarrow> P (Inl x, s3)"
    and get2_err: "\<And>e p locs s1 k s2 np s3 x s4. CHR ''@'' \<in> set key
        \<Longrightarrow> str_split1 CHR ''.'' (str_split CHR ''@'' key ! 0) = [e, p]
        \<Longrightarrow> base2_getitem Domain d s
              (e @ ''.'' @ last (str_split CHR ''.'' (str_split CHR ''@'' key ! 1))) = (Inr locs, s1)
        \<Longrightarrow> domain_getitem d s1 (e @ ''.'' @ p) = (Inl (KeyError k), s2)
        \<Longrightarrow> Np s2 = Inr (Some np)
        \<Longrightarrow> base2_setitem Domain d s2 (e @ ''.'' @ p) (PArr (seed_array np val)) = (Inr (), s3)
        \<Longrightarrow> domain_getitem d s3 (e @ ''.'' @ p) = (Inl x, s4)
        \<Longrightarrow> P (Inl x, s4)"
    and asg2_err: "\<And>e p locs s1 k s2 np s3 vals s4 x. CHR ''@'' \<in> set key
        \<Longrightarrow> str_split1 CHR ''.'' (str_split CHR ''@'' key ! 0) = [e, p]
        \<Longrightarrow> base2_getitem Domain d s
              (e @ ''.'' @ last (str_split CHR ''.'' (str_split CHR ''@'' key ! 1))) = (Inr locs, s1)
        \<Longrightarrow> domain_getitem d s1 (e @ ''.'' @ p) = (Inl (KeyError k), s2)
        \<Longrightarrow> Np s2 = Inr (Some np)
        \<Longrightarrow> base2_setitem Domain d s2 (e @ ''.'' @ p) (PArr (seed_array np val)) = (Inr (), s3)
        \<Longrightarrow> domain_getitem d s3 (e @ ''.'' @ p) = (Inr vals, s4)
        \<Longrightarrow> py_assign vals locs True val = Inl x
        \<Longrightarrow> P (Inl x, s4)"
    and fresh: "\<And>e p locs s1 k s2 np s3 vals s4 a. CHR ''@'' \<in> set key
        \<Longrightarrow> str_split1 CHR ''.'' (str_split CHR ''@'' key ! 0) = [e, p]
        \<Longrightarrow> base2_getitem Domain d s
              (e @ ''.'' @ last (str_split CHR ''.'' (str_split CHR ''@'' key ! 1))) = (Inr locs, s1)
        \<Longrightarrow> domain_getitem d s1 (e @ ''.'' @ p) = (Inl (KeyError k), s2)
        \<Longrightarrow> Np s2 = Inr (Some np)
        \<Longrightarrow> base2_setitem Domain d s2 (e @ ''.'' @ p) (PArr (seed_array np val)) = (Inr (), s3)
        \<Longrightarrow> domain_getitem d s3 (e @ ''.'' @ p) = (Inr vals, s4)
        \<Longrightarrow> py_assign vals locs True val = Inr a
        \<Longrightarrow> P (Inr (), dict_store s4 (e @ ''.'' @ p) a)"
  shows "P (domain_setitem (Suc d) s key val)"
proof (cases "CHR ''@'' \<in> set key")
  case False
  with noat show ?thesis by simp
next
  case at: True
  show ?thesis
  proof (cases "\<exists>e p. str_split1 CHR ''.'' (str_split CHR ''@'' key ! 0) = [e, p]")
    case False
    with at have "domain_setitem (Suc d) s key val = (Inl ValueError, s)"
      by (auto split: list.splits)
    with False bad [OF at] show ?thesis by auto
  next
    case True
    then obtain e p where sp: "str_split1 CHR ''.'' (str_split CHR ''@'' key ! 0) = [e, p]"
      by blast
    define lab where "lab = e @ ''.'' @ last (str_split CHR ''.'' (str_split CHR ''@'' key ! 1))"
    define key' where "key' = e @ ''.'' @ p"
    note rules = lbl_err [OF at sp, folded lab_def] get_err [OF at sp, folded lab_def key'_def]
      asg_err [OF at sp, folded lab_def key'_def] wback [OF at sp, folded lab_def key'_def]
      np_err [OF at sp, folded lab_def key'_def] np_none [OF at sp, folded lab_def key'_def]
      seed_err [OF at sp, folded lab_def key'_def] get2_err [OF at sp, folded lab_def key'_def]
      asg2_err [OF at sp, folded lab_def key'_def] fresh [OF at sp, folded lab_def key'_def]
    obtain r1 s1 where c1: "base2_getitem Domain d s lab = (r1, s1)" by force
    obtain r2 s2 where c2: "domain_getitem d s1 key' = (r2, s2)" by force
    have u: "domain_setitem (Suc d) s key val =
       (case r1 of Inl x \<Rightarrow> (Inl x, s1)
        | Inr locs \<Rightarrow>
           (case r2 of
              Inr vals \<Rightarrow>
                (case py_assign vals locs False val of
                   Inl x \<Rightarrow> (Inl x, s2)
                 | Inr a \<Rightarrow> domain_setitem d (dict_store s2 key' a) key' (PArr a))
            | Inl (KeyError k) \<Rightarrow>
                (case Np s2 of
                   Inl x \<Rightarrow> (Inl x, s2)
                 | Inr None \<Rightarrow> (Inl TypeError, s2)
                 | Inr (Some np) \<Rightarrow>
                     (case base2_setitem Domain d s2 key' (PArr (seed_array np val)) of
                        (Inl x, s3) \<Rightarrow> (Inl x, s3)
                      | (Inr _, s3) \<Rightarrow>
                          (case domain_getitem d s3 key' of
                             (Inl x, s4) \<Rightarrow> (Inl x, s4)
                           | (Inr vals, s4) \<Rightarrow>
                               (case py_assign vals locs True val of
                                  Inl x \<Rightarrow> (Inl x, s4)
                                | Inr a \<Rightarrow> (Inr (), dict_store s4 key' a)))))
            | Inl x \<Rightarrow> (Inl x, s2)))"
      unfolding domain_setitem_unfold using at sp c1 c2 unfolding lab_def key'_def
      by (cases r1) simp_all
    show ?thesis
    proof (cases r1)
      case (Inl x)
      with u c1 rules(1) show ?thesis by simp
    next
      case r1: (Inr locs)
      show ?thesis
      proof (cases r2)
        case r2: (Inr vals)
        show ?thesis
        proof (cases "py_assign vals locs False val")
          case (Inl x)
          with u r1 r2 c1 c2 rules(3) show ?thesis by simp
        next
          case (Inr a)
          with u r1 r2 c1 c2 rules(4) show ?thesis by simp
        qed
      next
        case r2: (Inl x)
        show ?thesis
        proof (cases "\<exists>k. x = KeyError k")
          case False
          then have "\<And>k. x \<noteq> KeyError k" by blast
          from rules(2) [OF _ _ this] c1 c2 r1 r2 have "P (Inl x, s2)" by simp
          moreover from False u r1 r2 have "domain_setitem (Suc d) s key val = (Inl x, s2)"
            by (cases x) simp_all
          ultimately show ?thesis by simp
        next
          case True
          then obtain k where k: "x = KeyError k" by blast
          note c2' = c2 [unfolded r2 k]
          note c1' = c1 [unfolded r1]
          show ?thesis
          proof (cases "Np s2")
            case (Inl y)
            with u r1 r2 k rules(5) [OF c1' c2'] show ?thesis by simp
          next
            case (Inr c)
            show ?thesis
            proof (cases c)
              case None
              with Inr u r1 r2 k rules(6) [OF c1' c2'] show ?thesis by simp
            next
              case (Some np)
              note np = Inr [unfolded Some]
              obtain r3 s3 where c3: "base2_setitem Domain d s2 key' (PArr (seed_array np val)) = (r3, s3)"
                by force
              obtain r4 s4 where c4: "domain_getitem d s3 key' = (r4, s4)" by force
              show ?thesis
              proof (cases r3)
                case (Inl y)
                with u r1 r2 k np c3 rules(7) [OF c1' c2' np] show ?thesis by simp
              next
                case r3: (Inr u3)
                note c3' = c3 [unfolded r3]
                show ?thesis
                proof (cases r4)
                  case (Inl y)
                  with u r1 r2 k np c3 r3 c4 rules(8) [OF c1' c2' np] show ?thesis by simp
                next
                  case r4: (Inr vals)
                  show ?thesis
                  proof (cases "py_assign vals locs True val")
                    case (Inl y)
                    with u r1 r2 k np c3 r3 c4 r4 rules(9) [OF c1' c2' np] show ?thesis by simp
                  next
                    case (Inr a)
                    with u r1 r2 k np c3 r3 c4 r4 rules(10) [OF c1' c2' np] show ?thesis by simp
                  qed
                qed
              qed
            qed
          qed
        qed
      qed
    qed
  qed
qed

lemma base2_write_name: "name (snd (base2_write s key e a)) = name s"
  by (auto simp: base2_write_def dict_store_def split: sum.splits option.splits list.splits)

lemma setitem_each_keeps:
  assumes "\<And>t k v. I t \<Longrightarrow> (k, v) \<in> set kvs \<Longrightarrow> I (snd (self_setitem cls d t (key @ ''.'' @ k) v))"
    and "I s"
  shows "I (snd (setitem_each cls d s key kvs))"
  using assms
proof (induction kvs arbitrary: s)
  case Nil
  then show ?case by simp
next
  case (Cons kv kvs)
  obtain k v where kv: "kv = (k, v)" by (cases kv)
  obtain r s1 where c: "self_setitem cls d s (key @ ''.'' @ k) v = (r, s1)" by force
  have s1: "I s1" using Cons.prems(1) [OF Cons.prems(2), of k v] c kv by simp
  show ?case
  proof (cases r)
    case (Inl e)
    with c s1 kv show ?thesis by (simp add: setitem_each_unfold del: setitem_each.simps(2))
  next
    case (Inr u)
    have "I (snd (setitem_each cls d s1 key kvs))"
      using Cons.prems(1) s1 by (intro Cons.IH) auto
    with c Inr kv show ?thesis by (simp add: setitem_each_unfold del: setitem_each.simps(2))
  qed
qed

lemma names_kept_all:
  "(\<forall>cls s key val. name (snd (base2_setitem cls d s key val)) = name s)
 \<and> (\<forall>cls s key kvs. name (snd (setitem_each cls d s key kvs)) = name s)
 \<and> (\<forall>cls s key. name (snd (base2_getitem cls d s key)) = name s)
 \<and> (\<forall>s key. name (snd (domain_getitem d s key)) = name s)
 \<and> (\<forall>s key val. name (snd (domain_setitem d s key val)) = name s)"
proof (induction d)
  case 0
  have set0: "name (snd (self_setitem cls 0 t k v)) = name t" for cls t k v
    by (cases cls) (simp_all add: self_setitem_def)
  have "name (snd (setitem_each cls 0 s key kvs)) = name s" for cls s key kvs
    by (rule setitem_each_keeps [where I = "\<lambda>t. name t = name s"]) (simp_all add: set0)
  then show ?case by simp
next
  case (Suc d)
  then have ih1: "\<And>cls s key val. name (snd (base2_setitem cls d s key val)) = name s"
    and ih2: "\<And>cls s key kvs. name (snd (setitem_each cls d s key kvs)) = name s"
    and ih3: "\<And>cls s key. name (snd (base2_getitem cls d s key)) = name s"
    and ih4: "\<And>s key. name (snd (domain_getitem d s key)) = name s"
    and ih5: "\<And>s key val. name (snd (domain_setitem d s key val)) = name s"
    by blast+
  have hs: "name t' = name t" if "self_setitem c d t k v = (r, t')" for c t k v r t'
    using that ih1 [of Base2 t k v] ih5 [of t k v] by (cases c) (simp_all add: self_setitem_def)
  have hg: "name (snd (self_getitem c d t k)) = name t" for c t k
    using ih3 [of Base2 t k] ih4 [of t k] by (cases c) (simp_all add: self_getitem_def)
  have b1: "name t' = name t" if "base2_setitem c d t k v = (r, t')" for c t k v r t'
    using that ih1 [of c t k v] by simp
  have b3: "name t' = name t" if "base2_getitem c d t k = (r, t')" for c t k r t'
    using that ih3 [of c t k] by simp
  have b4: "name t' = name t" if "domain_getitem d t k = (r, t')" for t k r t'
    using that ih4 [of t k] by simp
  have w: "name (snd (base2_setitem cls (Suc d) s key val)) = name s" for cls s key val
    by (cases val) (simp_all add: base2_write_name ih2 split: list.splits)
  have g: "name (snd (base2_getitem cls (Suc d) s key)) = name s" for cls s key
  proof (rule base2_getitem_cases [where P = "\<lambda>r. name (snd r) = name s"]; (simp; fail)?)
    fix e p np x s1
    assume "self_setitem cls d s (''pore.'' @ name s) (PArr (np_ones_bool np)) = (Inl x, s1)"
    then show "name (snd (Inl x :: exn + rval, s1)) = name s" by (simp add: hs)
  next
    fix e p np s1 x
    assume "self_setitem cls d s (''pore.'' @ name s) (PArr (np_ones_bool np)) = (Inr (), s1)"
    then show "name (snd (Inl x :: exn + rval, s1)) = name s" by (simp add: hs)
  next
    fix e p np s1 nt x s2
    assume "self_setitem cls d s (''pore.'' @ name s) (PArr (np_ones_bool np)) = (Inr (), s1)"
      and "self_setitem cls d s1 (''throat.'' @ name s1) (PArr (np_ones_bool nt)) = (Inl x, s2)"
    then show "name (snd (Inl x :: exn + rval, s2)) = name s" using hs by (metis snd_conv)
  next
    fix e p np s1 nt s2
    assume "self_setitem cls d s (''pore.'' @ name s) (PArr (np_ones_bool np)) = (Inr (), s1)"
      and "self_setitem cls d s1 (''throat.'' @ name s1) (PArr (np_ones_bool nt)) = (Inr (), s2)"
    then show "name (snd (self_getitem cls d s2 key)) = name s" using hs hg by metis
  qed
  have dg: "name (snd (domain_getitem (Suc d) s key)) = name s" for s key
  proof (rule domain_getitem_cases [where P = "\<lambda>r. name (snd r) = name s"]; (simp add: ih3; fail)?)
    fix e p x s1
    assume "base2_getitem Domain d s
              (e @ ''.'' @ last (str_split CHR ''.'' (str_split CHR ''@'' key ! 1))) = (Inl x, s1)"
    then show "name (snd (Inl x :: exn + rval, s1)) = name s" using b3 by (metis snd_conv)
  next
    fix e p locs s1 x s2
    assume "base2_getitem Domain d s
              (e @ ''.'' @ last (str_split CHR ''.'' (str_split CHR ''@'' key ! 1))) = (Inr locs, s1)"
      and "base2_getitem Domain d s1 (e @ ''.'' @ p) = (Inl x, s2)"
    then show "name (snd (Inl x :: exn + rval, s2)) = name s" using b3 by (metis snd_conv)
  next
    fix e p locs s1 vals s2
    assume "base2_getitem Domain d s
              (e @ ''.'' @ last (str_split CHR ''.'' (str_split CHR ''@'' key ! 1))) = (Inr locs, s1)"
      and "base2_getitem Domain d s1 (e @ ''.'' @ p) = (Inr vals, s2)"
    then show "name (snd (py_index vals locs, s2)) = name s" using b3 by (metis snd_conv)
  qed
  have ds: "name (snd (domain_setitem (Suc d) s key val)) = name s" for s key val
  proof (rule domain_setitem_cases [where P = "\<lambda>r. name (snd r) = name s"]; (simp add: ih1; fail)?)
    fix e p x s1
    assume "base2_getitem Domain d s
              (e @ ''.'' @ last (str_split CHR ''.'' (str_split CHR ''@'' key ! 1))) = (Inl x, s1)"
    then show "name (snd (Inl x :: exn + unit, s1)) = name s" using b3 by (metis snd_conv)
  next
    fix e p locs s1 x s2
    assume "base2_getitem Domain d s
              (e @ ''.'' @ last (str_split CHR ''.'' (str_split CHR ''@'' key ! 1))) = (Inr locs, s1)"
      and "domain_getitem d s1 (e @ ''.'' @ p) = (Inl x, s2)"
    then show "name (snd (Inl x :: exn + unit, s2)) = name s" using b3 b4 by (metis snd_conv)
  next
    fix e p locs s1 vals s2 x
    assume "base2_getitem Domain d s
              (e @ ''.'' @ last (str_split CHR ''.'' (str_split CHR ''@'' key ! 1))) = (Inr locs, s1)"
      and "domain_getitem d s1 (e @ ''.'' @ p) = (Inr vals, s2)"
    then show "name (snd (Inl x :: exn + unit, s2)) = name s" using b3 b4 by (metis snd_conv)
  next
    fix e p locs s1 vals s2 a
    assume "base2_getitem Domain d s
              (e @ ''.'' @ last (str_split CHR ''.'' (str_split CHR ''@'' key ! 1))) = (Inr locs, s1)"
      and "domain_getitem d s1 (e @ ''.'' @ p) = (Inr vals, s2)"
    then have "name s2 = name s" using b3 b4 by metis
    then show "name (snd (domain_setitem d (dict_store s2 (e @ ''.'' @ p) a) (e @ ''.'' @ p) (PArr a)))
               = name s"
      by (simp add: ih5 dict_store_def)
  next
    fix e p locs s1 k s2 x
    assume "base2_getitem Domain d s
              (e @ ''.'' @ last (str_split CHR ''.'' (str_split CHR ''@'' key ! 1))) = (Inr locs, s1)"
      and "domain_getitem d s1 (e @ ''.'' @ p) = (Inl (KeyError k), s2)"
    then show "name (snd (Inl x :: exn + unit, s2)) = name s" using b3 b4 by (metis snd_conv)
  next
    fix e p locs s1 k s2
    assume "base2_getitem Domain d s
              (e @ ''.'' @ last (str_split CHR ''.'' (str_split CHR ''@'' key ! 1))) = (Inr locs, s1)"
      and "domain_getitem d s1 (e @ ''.'' @ p) = (Inl (KeyError k), s2)"
    then show "name (snd (Inl TypeError :: exn + unit, s2)) = name s" using b3 b4 by (metis snd_conv)
  next
    fix e p locs s1 k s2 np x s3
    assume "base2_getitem Domain d s
              (e @ ''.'' @ last (str_split CHR ''.'' (str_split CHR ''@'' key ! 1))) = (Inr locs, s1)"
      and "domain_getitem d s1 (e @ ''.'' @ p) = (Inl (KeyError k), s2)"
      and "base2_setitem Domain d s2 (e @ ''.'' @ p) (PArr (seed_array np val)) = (Inl x, s3)"
    then show "name (snd (Inl x :: exn + unit, s3)) = name s" using b1 b3 b4 by (metis snd_conv)
  next
    fix e p locs s1 k s2 np s3 x s4
    assume "base2_getitem Domain d s
              (e @ ''.'' @ last (str_split CHR ''.'' (str_split CHR ''@'' key ! 1))) = (Inr locs, s1)"
      and "domain_getitem d s1 (e @ ''.'' @ p) = (Inl (KeyError k), s2)"
      and "base2_setitem Domain d s2 (e @ ''.'' @ p) (PArr (seed_array np val)) = (Inr (), s3)"
      and "domain_getitem d s3 (e @ ''.'' @ p) = (Inl x, s4)"
    then show "name (snd (Inl x :: exn + unit, s4)) = name s" using b1 b3 b4 by (metis snd_conv)
  next
    fix e p locs s1 k s2 np s3 vals s4 x
    assume "base2_getitem Domain d s
              (e @ ''.'' @ last (str_split CHR ''.'' (str_split CHR ''@'' key ! 1))) = (Inr locs, s1)"
      and "domain_getitem d s1 (e @ ''.'' @ p) = (Inl (KeyError k), s2)"
      and "base2_setitem Domain d s2 (e @ ''.'' @ p) (PArr (seed_array np val)) = (Inr (), s3)"
      and "domain_getitem d s3 (e @ ''.'' @ p) = (Inr vals, s4)"
    then show "name (snd (Inl x :: exn + unit, s4)) = name s" using b1 b3 b4 by (metis snd_conv)
  next
    fix e p locs s1 k s2 np s3 vals s4 a
    assume "base2_getitem Domain d s
              (e @ ''.'' @ last (str_split CHR ''.'' (str_split CHR ''@'' key ! 1))) = (Inr locs, s1)"
      and "domain_getitem d s1 (e @ ''.'' @ p) = (Inl (KeyError k), s2)"
      and "base2_setitem Domain d s2 (e @ ''.'' @ p) (PArr (seed_array np val)) = (Inr (), s3)"
      and "domain_getitem d s3 (e @ ''.'' @ p) = (Inr vals, s4)"
    then have "name s4 = name s" using b1 b3 b4 by metis
    then show "name (snd (Inr () :: exn + unit, dict_store s4 (e @ ''.'' @ p) a)) = name s"
      by (simp add: dict_store_def)
  qed
  have set1: "name (snd (self_setitem cls (Suc d) t k v)) = name t" for cls t k v
    using w ds by (cases cls) (simp_all add: self_setitem_def)
  have "name (snd (setitem_each cls (Suc d) s key kvs)) = name s" for cls s key kvs
    by (rule setitem_each_keeps [where I = "\<lambda>t. name t = name s"]) (simp_all add: set1)
  with w g dg ds show ?case by blast
qed

lemma dict_update_same: "map_of kvs k = Some v \<Longrightarrow> dict_update k v kvs = kvs"
  by (induction kvs) (auto split: if_splits)

lemma count_update_shape:
  "map_of kvs key = Some a0 \<Longrightarrow> shape a = shape a0
   \<Longrightarrow> count_items e (dict_update key a kvs) = count_items e kvs"
  by (induction kvs) (auto split: if_splits)

lemma list_all_update_shape:
  assumes "map_of kvs key = Some a0" and "\<And>k. Q (k, a) = Q (k, a0)"
  shows "list_all Q (dict_update key a kvs) = list_all Q kvs"
  using assms(1) by (induction kvs) (auto simp: assms(2) split: if_splits)

lemma agree_update_shape:
  assumes "map_of (items s) key = Some a0" and "shape a = shape a0"
  shows "lengths_agree (dict_store s key a) e = lengths_agree s e"
proof -
  have c: "base2_count (dict_store s key a) e = base2_count s e"
    using assms by (simp add: base2_count_def dict_store_def count_update_shape)
  have l: "list_all (\<lambda>(k, v). startswith k e \<longrightarrow>
                      k = ''pore.coords'' \<or> k = ''throat.conns'' \<or>
                      (case shape v of [] \<Rightarrow> False | l # _ \<Rightarrow> l = n)) (dict_update key a (items s))
         = list_all (\<lambda>(k, v). startswith k e \<longrightarrow>
                      k = ''pore.coords'' \<or> k = ''throat.conns'' \<or>
                      (case shape v of [] \<Rightarrow> False | l # _ \<Rightarrow> l = n)) (items s)" for n
    using assms(1) by (rule list_all_update_shape) (simp add: assms(2))
  show ?thesis
    unfolding lengths_agree_def c by (simp add: dict_store_def l split: sum.splits option.splits)
qed

lemma ok_update_shape:
  assumes "map_of (items s) key = Some a0" and "shape a = shape a0" and "lengths_ok s"
  shows "lengths_ok (dict_store s key a)"
  using assms by (simp add: lengths_ok_def agree_update_shape)

lemma dict_update_absent: "map_of kvs k = None \<Longrightarrow> dict_update k v kvs = kvs @ [(k, v)]"
  by (induction kvs) (auto split: if_splits)

lemma count_items_append:
  "count_items e (kvs @ rst) = (case count_items e kvs of Inr None \<Rightarrow> count_items e rst | r \<Rightarrow> r)"
  by (induction kvs) (auto split: list.splits)

lemma agree_append_exempt:
  assumes "map_of (items s) key = None" and "key = ''pore.coords'' \<or> key = ''throat.conns''"
    and "lengths_agree s e"
  shows "lengths_agree (dict_store s key a) e"
proof (cases "base2_count s e = Inr None")
  case True
  then show ?thesis by (rule agree_update_fresh)
next
  case False
  then have "base2_count (dict_store s key a) e = base2_count s e"
    using assms(1)
    by (auto simp: base2_count_def dict_store_def dict_update_absent count_items_append
        split: sum.splits option.splits)
  then show ?thesis
    using assms
    by (auto simp: lengths_agree_def dict_store_def dict_update_absent
        split: sum.splits option.splits)
qed

lemma bshape_rev_one: "sh \<noteq> [] \<Longrightarrow> bshape_rev [1] sh = Some sh"
  by (cases sh) auto

lemma ones_times_one:
  assumes "shape a = 1 # tr" and "ones_times 1 a = Inr b"
  shows "shape b = 1 # tr"
proof -
  have "broadcast_shapes [1] (1 # tr) = Some (1 # tr)"
    using bshape_rev_one [of "rev (1 # tr)"] by (simp add: broadcast_shapes_def)
  with assms show ?thesis
    by (auto simp: ones_times_def split: option.splits)
qed

lemma mask_set_shape: "mask_set a m boxed v = Inr a' \<Longrightarrow> shape a' = shape a"
  by (auto simp: mask_set_def Let_def split: if_splits sum.splits prod.splits option.splits)

lemma py_assign_shape:
  assumes "py_assign vals locs boxed v = Inr a"
  shows "\<exists>a0. vals = RArr a0 \<and> shape a = shape a0"
  using assms by (cases vals; cases locs) (auto dest: mask_set_shape)

lemma split1_startswith:
  assumes "str_split1 CHR ''.'' key = [element, rest]"
  shows "startswith key element"
  using str_split1_two(1) [OF assms] startswith_append [of element] by simp

lemma base2_write_present:
  assumes ok: "lengths_ok s"
    and sp: "str_split1 CHR ''.'' key = [element, rest]"
    and pre: "map_of (items s) key = Some a0" and sh: "shape a = shape a0"
  shows "lengths_ok (snd (base2_write s key element a))"
proof (cases "element = ''pore'' \<or> element = ''throat''")
  case False
  then show ?thesis using ok by (simp add: base2_write_def)
next
  case el: True
  note same = ok_update_shape [OF pre _ ok]
  show ?thesis
  proof (cases "key = ''pore.coords'' \<or> key = ''throat.conns''")
    case True
    with el same [OF sh] show ?thesis by (auto simp: base2_write_def)
  next
    case ne: False
    show ?thesis
    proof (cases "base2_count s element")
      case (Inl x)
      with el ne ok show ?thesis by (auto simp: base2_write_def)
    next
      case (Inr c)
      show ?thesis
      proof (cases c)
        case None
        with Inr el ne same [OF sh] show ?thesis by (auto simp: base2_write_def)
      next
        case (Some n)
        have "(key, a0) \<in> set (items s)" using pre by (rule map_of_SomeD)
        moreover have "lengths_agree s element" using ok el by (auto simp: lengths_ok_def)
        ultimately have lead: "case shape a0 of [] \<Rightarrow> False | l # _ \<Rightarrow> l = n"
          using Inr Some ne split1_startswith [OF sp]
          by (auto simp: lengths_agree_def list_all_iff)
        then obtain tr where a0: "shape a0 = n # tr" by (cases "shape a0") auto
        show ?thesis
        proof (cases "n = 1")
          case False
          with Inr Some el ne a0 sh same [OF sh] show ?thesis by (auto simp: base2_write_def)
        next
          case True
          show ?thesis
          proof (cases "ones_times 1 a")
            case (Inl x)
            with Inr Some el ne a0 sh True ok show ?thesis by (auto simp: base2_write_def)
          next
            case b: (Inr b)
            have "shape b = shape a0" using ones_times_one [OF _ b, of tr] a0 sh True by simp
            from same [OF this] Inr Some el ne a0 sh True b show ?thesis
              by (auto simp: base2_write_def)
          qed
        qed
      qed
    qed
  qed
qed

lemma base2_write_exempt:
  assumes ok: "lengths_ok s"
    and sp: "str_split1 CHR ''.'' key = [element, rest]"
    and ex: "key = ''pore.coords'' \<or> key = ''throat.conns''"
    and cond: "map_of (items s) key = None
               \<or> (\<exists>n tr. base2_count s element = Inr (Some n) \<and> shape a = n # tr)"
  shows "lengths_ok (snd (base2_write s key element a))"
proof -
  have el: "element = ''pore'' \<or> element = ''throat''"
    using sp ex by (auto simp: str_split1_def)
  then have w: "base2_write s key element a = (Inr (), dict_store s key a)"
    using ex by (auto simp: base2_write_def)
  from cond have "lengths_ok (dict_store s key a)"
  proof
    assume "map_of (items s) key = None"
    then show ?thesis using ex ok by (simp add: lengths_ok_def agree_append_exempt)
  next
    assume "\<exists>n tr. base2_count s element = Inr (Some n) \<and> shape a = n # tr"
    then obtain n tr where c: "base2_count s element = Inr (Some n)" and sh: "shape a = n # tr"
      by blast
    define other where "other = (if element = ''pore'' then ''throat'' else ''pore'')"
    have both: "lengths_ok t \<longleftrightarrow> lengths_agree t element \<and> lengths_agree t other" for t
      using el by (auto simp: lengths_ok_def other_def)
    have "\<not> startswith key other"
      using el kind_prefix [OF sp] by (auto simp: other_def)
    then have "lengths_agree (dict_store s key a) other"
      using ok by (simp add: both agree_update_other)
    moreover have "lengths_agree (dict_store s key a) element"
      using ok c sh by (simp add: both agree_update_same)
    ultimately show ?thesis by (simp add: both)
  qed
  with w show ?thesis by simp
qed

lemma count_none_absent:
  assumes "base2_count s e = Inr None" and "startswith key e"
  shows "map_of (items s) key = None"
proof (rule ccontr)
  assume "map_of (items s) key \<noteq> None"
  then obtain v where "(key, v) \<in> set (items s)" by (auto dest: map_of_SomeD)
  with assms show False by (auto simp: base2_count_def count_items_None)
qed

lemma base2_write_ones:
  assumes ok: "lengths_ok s"
    and sp: "str_split1 CHR ''.'' key = [element, rest]"
    and cnt: "base2_count s element = Inr c"
  shows "lengths_ok (snd (base2_write s key element (np_ones_bool c)))"
proof (cases "key = ''pore.coords'' \<or> key = ''throat.conns''")
  case False
  have "shape (np_ones_bool c) \<noteq> 1 # l # tr" for l tr by (cases c) simp_all
  with ok sp False show ?thesis by (intro base2_write_lengths) auto
next
  case True
  show ?thesis
  proof (cases c)
    case None
    with cnt have "map_of (items s) key = None"
      using split1_startswith [OF sp] by (intro count_none_absent) auto
    with ok sp True show ?thesis by (intro base2_write_exempt) auto
  next
    case (Some n)
    with ok sp True cnt show ?thesis by (intro base2_write_exempt) auto
  qed
qed

lemma split_segments_all: "\<forall>w \<in> set (str_split c s). set w \<subseteq> set s"
proof (induction s)
  case Nil
  then show ?case by simp
next
  case (Cons y ys)
  show ?case
  proof (cases "y = c")
    case True
    with Cons show ?thesis by auto
  next
    case False
    obtain w ws where sp: "str_split c ys = w # ws"
      using str_split_nonempty [of c ys] by (cases "str_split c ys") auto
    with Cons have "set w \<subseteq> set ys" and "\<forall>v \<in> set ws. set v \<subseteq> set ys" by auto
    with False sp show ?thesis by auto
  qed
qed

lemma split_segments: "x \<in> set (str_split c s) \<Longrightarrow> set x \<subseteq> set s"
  using split_segments_all by blast

lemma split_length2: "c \<in> set s \<Longrightarrow> 2 \<le> length (str_split c s)"
proof (induction s)
  case Nil
  then show ?case by simp
next
  case (Cons y ys)
  then show ?case
    using str_split_nonempty [of c ys] by (cases "str_split c ys") (auto split: if_splits)
qed

lemma second_segment_chars:
  assumes "str_split1 CHR ''.'' key = [e, p]"
  shows "set (str_split CHR ''.'' key ! 1) \<subseteq> set key"
proof -
  have "CHR ''.'' \<in> set key" using assms by (rule str_split1_two(3))
  then have "1 < length (str_split CHR ''.'' key)" using split_length2 [of "CHR ''.''" key] by simp
  then have "str_split CHR ''.'' key ! 1 \<in> set (str_split CHR ''.'' key)" by (rule nth_mem)
  then show ?thesis by (rule split_segments)
qed

lemma count_items_error: "count_items e kvs = Inl x \<Longrightarrow> x = IndexError"
  by (induction kvs) (auto split: if_splits list.splits)

lemma base2_count_error: "base2_count s e = Inl x \<Longrightarrow> x = IndexError"
  unfolding base2_count_def by (rule count_items_error)

lemma ones_times_error: "ones_times n a = Inl x \<Longrightarrow> x = ValueError"
  by (auto simp: ones_times_def split: option.splits)

lemma base2_write_no_keyerror: "base2_write s key e a \<noteq> (Inl (KeyError k), t)"
  by (auto simp: base2_write_def split: sum.splits option.splits list.splits if_splits
      dest: base2_count_error ones_times_error)

lemma base2_setitem_arr_no_keyerror: "base2_setitem cls d s key (PArr a) \<noteq> (Inl (KeyError k), t)"
  by (cases d) (auto simp: base2_write_no_keyerror split: list.splits)

lemma domain_setitem_arr_no_keyerror:
  "CHR ''@'' \<notin> set key \<Longrightarrow> domain_setitem d s key (PArr a) \<noteq> (Inl (KeyError k), t)"
  by (cases d) (simp_all add: base2_setitem_arr_no_keyerror del: base2_setitem.simps)

lemma names_kept:
  shows "base2_setitem cls d s key val = (r, t) \<Longrightarrow> name t = name s"
    and "domain_setitem d s key val = (r, t) \<Longrightarrow> name t = name s"
    and "base2_getitem cls d s key = (r', t) \<Longrightarrow> name t = name s"
    and "domain_getitem d s key = (r', t) \<Longrightarrow> name t = name s"
    and "self_setitem cls d s key val = (r, t) \<Longrightarrow> name t = name s"
    and "self_getitem cls d s key = (r', t) \<Longrightarrow> name t = name s"
proof -
  note all = names_kept_all [of d]
  show "base2_setitem cls d s key val = (r, t) \<Longrightarrow> name t = name s"
    using all by (metis snd_conv)
  show "domain_setitem d s key val = (r, t) \<Longrightarrow> name t = name s"
    using all by (metis snd_conv)
  show "base2_getitem cls d s key = (r', t) \<Longrightarrow> name t = name s"
    using all by (metis snd_conv)
  show "domain_getitem d s key = (r', t) \<Longrightarrow> name t = name s"
    using all by (metis snd_conv)
  show "self_setitem cls d s key val = (r, t) \<Longrightarrow> name t = name s"
    using all by (cases cls) (simp_all add: self_setitem_def, (metis snd_conv)+)
  show "self_getitem cls d s key = (r', t) \<Longrightarrow> name t = name s"
    using all by (cases cls) (simp_all add: self_getitem_def, (metis snd_conv)+)
qed

text \<open>
  What a read on a \<^verbatim>\<open>Domain\<close> under a key without \<^verbatim>\<open>@\<close> says about the store it leaves:
  an array it returns is the one stored under the key, and a \<^verbatim>\<open>KeyError\<close> means that the
  key is not stored.
\<close>

lemma domain_read_key_all:
  "(\<forall>s key. CHR ''@'' \<notin> set key \<longrightarrow>
      (\<forall>a. fst (base2_getitem Domain d s key) = Inr (RArr a)
          \<longrightarrow> map_of (items (snd (base2_getitem Domain d s key))) key = Some a)
    \<and> (\<forall>k. fst (base2_getitem Domain d s key) = Inl (KeyError k)
          \<longrightarrow> map_of (items (snd (base2_getitem Domain d s key))) key = None))
 \<and> (\<forall>s key. CHR ''@'' \<notin> set key \<longrightarrow>
      (\<forall>a. fst (domain_getitem d s key) = Inr (RArr a)
          \<longrightarrow> map_of (items (snd (domain_getitem d s key))) key = Some a)
    \<and> (\<forall>k. fst (domain_getitem d s key) = Inl (KeyError k)
          \<longrightarrow> map_of (items (snd (domain_getitem d s key))) key = None))"
proof (induction d)
  case 0
  show ?case by simp
next
  case (Suc d)
  then have ih1: "\<And>s key. CHR ''@'' \<notin> set key \<Longrightarrow>
      (\<forall>a. fst (base2_getitem Domain d s key) = Inr (RArr a)
          \<longrightarrow> map_of (items (snd (base2_getitem Domain d s key))) key = Some a)
    \<and> (\<forall>k. fst (base2_getitem Domain d s key) = Inl (KeyError k)
          \<longrightarrow> map_of (items (snd (base2_getitem Domain d s key))) key = None)"
    and ih2: "\<And>s key. CHR ''@'' \<notin> set key \<Longrightarrow>
      (\<forall>a. fst (domain_getitem d s key) = Inr (RArr a)
          \<longrightarrow> map_of (items (snd (domain_getitem d s key))) key = Some a)
    \<and> (\<forall>k. fst (domain_getitem d s key) = Inl (KeyError k)
          \<longrightarrow> map_of (items (snd (domain_getitem d s key))) key = None)"
    by blast+
  have g: "(\<forall>a. fst (base2_getitem Domain (Suc d) s key) = Inr (RArr a)
          \<longrightarrow> map_of (items (snd (base2_getitem Domain (Suc d) s key))) key = Some a)
    \<and> (\<forall>k. fst (base2_getitem Domain (Suc d) s key) = Inl (KeyError k)
          \<longrightarrow> map_of (items (snd (base2_getitem Domain (Suc d) s key))) key = None)"
    if noat: "CHR ''@'' \<notin> set key" for s key
  proof (rule base2_getitem_cases [where P = "\<lambda>res. (\<forall>a. fst res = Inr (RArr a)
          \<longrightarrow> map_of (items (snd res)) key = Some a)
    \<and> (\<forall>k. fst res = Inl (KeyError k) \<longrightarrow> map_of (items (snd res)) key = None)"
        and cls = Domain and d = d and s = s and key = key];
      (simp; fail)?)
    fix e p np x s1
    assume sp: "str_split1 CHR ''.'' key = [e, p]" and nm: "str_split CHR ''.'' key ! 1 = name s"
      and w: "self_setitem Domain d s (''pore.'' @ name s) (PArr (np_ones_bool np)) = (Inl x, s1)"
    have "CHR ''@'' \<notin> set (name s)" using second_segment_chars [OF sp] noat nm by auto
    then have "CHR ''@'' \<notin> set (''pore.'' @ name s)" by simp
    from domain_setitem_arr_no_keyerror [OF this] w have "\<And>k. x \<noteq> KeyError k"
      by (auto simp: self_setitem_def)
    then show "(\<forall>a. fst (Inl x :: exn + rval, s1) = Inr (RArr a)
          \<longrightarrow> map_of (items (snd (Inl x :: exn + rval, s1))) key = Some a)
    \<and> (\<forall>k. fst (Inl x :: exn + rval, s1) = Inl (KeyError k)
          \<longrightarrow> map_of (items (snd (Inl x :: exn + rval, s1))) key = None)" by simp
  next
    fix e p np s1 x
    assume "Nt s1 = Inl x"
    then have "x = IndexError" unfolding Nt_def by (rule base2_count_error)
    then show "(\<forall>a. fst (Inl x :: exn + rval, s1) = Inr (RArr a)
          \<longrightarrow> map_of (items (snd (Inl x :: exn + rval, s1))) key = Some a)
    \<and> (\<forall>k. fst (Inl x :: exn + rval, s1) = Inl (KeyError k)
          \<longrightarrow> map_of (items (snd (Inl x :: exn + rval, s1))) key = None)" by simp
  next
    fix e p np s1 nt x s2
    assume sp: "str_split1 CHR ''.'' key = [e, p]" and nm: "str_split CHR ''.'' key ! 1 = name s"
      and w1: "self_setitem Domain d s (''pore.'' @ name s) (PArr (np_ones_bool np)) = (Inr (), s1)"
      and w: "self_setitem Domain d s1 (''throat.'' @ name s1) (PArr (np_ones_bool nt)) = (Inl x, s2)"
    have "name s1 = name s" using w1 by (rule names_kept(5))
    then have "CHR ''@'' \<notin> set (name s1)" using second_segment_chars [OF sp] noat nm by auto
    then have "CHR ''@'' \<notin> set (''throat.'' @ name s1)" by simp
    from domain_setitem_arr_no_keyerror [OF this] w have "\<And>k. x \<noteq> KeyError k"
      by (auto simp: self_setitem_def)
    then show "(\<forall>a. fst (Inl x :: exn + rval, s2) = Inr (RArr a)
          \<longrightarrow> map_of (items (snd (Inl x :: exn + rval, s2))) key = Some a)
    \<and> (\<forall>k. fst (Inl x :: exn + rval, s2) = Inl (KeyError k)
          \<longrightarrow> map_of (items (snd (Inl x :: exn + rval, s2))) key = None)" by simp
  next
    fix e p np s1 nt s2
    show "(\<forall>a. fst (self_getitem Domain d s2 key) = Inr (RArr a)
          \<longrightarrow> map_of (items (snd (self_getitem Domain d s2 key))) key = Some a)
    \<and> (\<forall>k. fst (self_getitem Domain d s2 key) = Inl (KeyError k)
          \<longrightarrow> map_of (items (snd (self_getitem Domain d s2 key))) key = None)"
      using ih2 [OF noat, of s2] by (simp add: self_getitem_def)
  qed
  have "(\<forall>a. fst (domain_getitem (Suc d) s key) = Inr (RArr a)
          \<longrightarrow> map_of (items (snd (domain_getitem (Suc d) s key))) key = Some a)
    \<and> (\<forall>k. fst (domain_getitem (Suc d) s key) = Inl (KeyError k)
          \<longrightarrow> map_of (items (snd (domain_getitem (Suc d) s key))) key = None)"
    if noat: "CHR ''@'' \<notin> set key" for s key
    using ih1 [OF noat, of s] noat by (simp del: base2_getitem.simps)
  with g show ?case by blast
qed

lemma domain_read_key:
  assumes "CHR ''@'' \<notin> set key"
  shows "domain_getitem d s key = (Inr (RArr a), t) \<Longrightarrow> map_of (items t) key = Some a"
    and "domain_getitem d s key = (Inl (KeyError k), t) \<Longrightarrow> map_of (items t) key = None"
  using domain_read_key_all [of d] assms by (metis fst_conv snd_conv)+

lemma setitem_ones_ok:
  assumes "lengths_ok s" and "str_split1 CHR ''.'' key = [e, r]" and "base2_count s e = Inr c"
  shows "lengths_ok (snd (base2_setitem cls d s key (PArr (np_ones_bool c))))"
  using assms by (cases d) (simp_all add: base2_write_ones del: np_ones_bool.simps)

lemma domain_setitem_noat:
  "CHR ''@'' \<notin> set key \<Longrightarrow>
   domain_setitem d s key val
   = (case d of 0 \<Rightarrow> (Inl RecursionError, s) | Suc d' \<Rightarrow> base2_setitem Domain d' s key val)"
  by (cases d) simp_all

lemma vivify_ok:
  assumes ih: "\<And>s key val. lengths_ok s \<Longrightarrow> leaf_ok key val
                 \<Longrightarrow> lengths_ok (snd (domain_setitem d s key val))"
    and ok: "lengths_ok s" and sp: "str_split1 CHR ''.'' key = [e, r]"
    and cnt: "base2_count s e = Inr c"
  shows "lengths_ok (snd (self_setitem cls d s key (PArr (np_ones_bool c))))"
proof (cases cls)
  case Base2
  with ok sp cnt show ?thesis by (simp add: self_setitem_def setitem_ones_ok)
next
  case Domain
  show ?thesis
  proof (cases "CHR ''@'' \<in> set key")
    case True
    then have "key \<noteq> ''pore.coords''" and "key \<noteq> ''throat.conns''" by auto
    moreover have "length (shape (np_ones_bool c)) \<le> 1" by (cases c) simp_all
    ultimately have "leaf_ok key (PArr (np_ones_bool c))" by simp
    from ih [OF ok this] Domain show ?thesis by (simp add: self_setitem_def)
  next
    case False
    show ?thesis
    proof (cases d)
      case 0
      with ok Domain show ?thesis by (simp add: self_setitem_def)
    next
      case (Suc d')
      with False Domain setitem_ones_ok [OF ok sp cnt, of Domain d'] show ?thesis
        by (simp add: self_setitem_def domain_setitem_noat del: base2_setitem.simps)
    qed
  qed
qed

lemma setitem_present_ok:
  assumes ok: "lengths_ok s" and noat: "CHR ''@'' \<notin> set key"
    and pre: "map_of (items s) key = Some a"
  shows "lengths_ok (snd (domain_setitem d s key (PArr a)))"
proof -
  have w: "lengths_ok (snd (base2_setitem Domain k s key (PArr a)))" for k
  proof (cases k)
    case 0
    with ok show ?thesis by simp
  next
    case (Suc k')
    show ?thesis
    proof (cases "\<exists>e p. str_split1 CHR ''.'' key = [e, p]")
      case True
      then obtain e p where sp: "str_split1 CHR ''.'' key = [e, p]" by blast
      from base2_write_present [OF ok sp pre refl] Suc sp show ?thesis by simp
    next
      case False
      with Suc ok show ?thesis by (auto split: list.splits)
    qed
  qed
  show ?thesis
    using noat ok w by (simp add: domain_setitem_noat split: nat.splits del: base2_setitem.simps)
qed

lemma setitem_absent_ok:
  assumes ok: "lengths_ok s" and abs: "map_of (items s) key = None"
    and flat: "\<And>l tr. shape a \<noteq> 1 # l # tr"
  shows "lengths_ok (snd (base2_setitem cls d s key (PArr a)))"
proof (cases d)
  case 0
  with ok show ?thesis by simp
next
  case (Suc d')
  show ?thesis
  proof (cases "\<exists>e p. str_split1 CHR ''.'' key = [e, p]")
    case True
    then obtain e p where sp: "str_split1 CHR ''.'' key = [e, p]" by blast
    have "lengths_ok (snd (base2_write s key e a))"
    proof (cases "key = ''pore.coords'' \<or> key = ''throat.conns''")
      case True
      with ok sp abs show ?thesis by (intro base2_write_exempt) auto
    next
      case False
      with ok sp flat show ?thesis by (intro base2_write_lengths) auto
    qed
    with Suc sp show ?thesis by simp
  next
    case False
    with Suc ok show ?thesis by (auto split: list.splits)
  qed
qed

lemma leaf_ok_axes: "leaf_ok key val \<Longrightarrow> length (np_array_shape val) \<le> 1"
  by (cases val) simp_all

lemma seed_array_flat:
  assumes "length (np_array_shape val) \<le> 1"
  shows "shape (seed_array np val) \<noteq> 1 # l # tr"
proof -
  from assms have "tl (np_array_shape val) = []" by (cases "np_array_shape val") auto
  then show ?thesis by (simp add: seed_array_def np_full_def)
qed

lemma target_noat:
  assumes "str_split1 CHR ''.'' (str_split CHR ''@'' key ! 0) = [e, p]"
  shows "CHR ''@'' \<notin> set (e @ ''.'' @ p)"
proof -
  have "str_split CHR ''@'' key ! 0 = e @ ''.'' @ p"
    using str_split1_two(1) [OF assms] by simp
  then show ?thesis using str_split_first_no_sep [of "CHR ''@''" key] by simp
qed

text \<open>
  The invariant through every read and through every write whose arrays have at most
  one axis and that addresses neither \<^verbatim>\<open>pore.coords\<close> nor \<^verbatim>\<open>throat.conns\<close>, by induction on
  the call depth.
\<close>

lemma lengths_kept_all:
  "(\<forall>cls s key val. lengths_ok s \<longrightarrow> leaf_ok key val
      \<longrightarrow> lengths_ok (snd (base2_setitem cls d s key val)))
 \<and> (\<forall>cls s key kvs. lengths_ok s \<longrightarrow> list_all (\<lambda>(k, v). leaf_ok (key @ ''.'' @ k) v) kvs
      \<longrightarrow> lengths_ok (snd (setitem_each cls d s key kvs)))
 \<and> (\<forall>cls s key. lengths_ok s \<longrightarrow> lengths_ok (snd (base2_getitem cls d s key)))
 \<and> (\<forall>s key. lengths_ok s \<longrightarrow> lengths_ok (snd (domain_getitem d s key)))
 \<and> (\<forall>s key val. lengths_ok s \<longrightarrow> leaf_ok key val
      \<longrightarrow> lengths_ok (snd (domain_setitem d s key val)))"
proof (induction d)
  case 0
  have set0: "lengths_ok t \<Longrightarrow> lengths_ok (snd (self_setitem cls 0 t k v))" for cls t k v
    by (cases cls) (simp_all add: self_setitem_def)
  have "lengths_ok (snd (setitem_each cls 0 s key kvs))" if "lengths_ok s" for cls s key kvs
    using set0 that by (rule setitem_each_keeps)
  then show ?case by simp
next
  case (Suc d)
  then have ih1: "\<And>cls s key val. lengths_ok s \<Longrightarrow> leaf_ok key val
                    \<Longrightarrow> lengths_ok (snd (base2_setitem cls d s key val))"
    and ih2: "\<And>cls s key kvs. lengths_ok s
                    \<Longrightarrow> list_all (\<lambda>(k, v). leaf_ok (key @ ''.'' @ k) v) kvs
                    \<Longrightarrow> lengths_ok (snd (setitem_each cls d s key kvs))"
    and ih3: "\<And>cls s key. lengths_ok s \<Longrightarrow> lengths_ok (snd (base2_getitem cls d s key))"
    and ih4: "\<And>s key. lengths_ok s \<Longrightarrow> lengths_ok (snd (domain_getitem d s key))"
    and ih5: "\<And>s key val. lengths_ok s \<Longrightarrow> leaf_ok key val
                    \<Longrightarrow> lengths_ok (snd (domain_setitem d s key val))"
    by blast+
  have b3: "lengths_ok t'" if "lengths_ok t" "base2_getitem c d t k = (r, t')" for c t k r t'
    using ih3 [OF that(1), of c k] that(2) by simp
  have b4: "lengths_ok t'" if "lengths_ok t" "domain_getitem d t k = (r, t')" for t k r t'
    using ih4 [OF that(1), of k] that(2) by simp
  have hg: "lengths_ok (snd (self_getitem c d t k))" if "lengths_ok t" for c t k
    using ih3 [OF that, of Base2 k] ih4 [OF that, of k] by (cases c) (simp_all add: self_getitem_def)
  have viv: "lengths_ok t'"
    if "lengths_ok t" "str_split1 CHR ''.'' k = [e, r]" "base2_count t e = Inr c"
      "self_setitem cls d t k (PArr (np_ones_bool c)) = (res, t')" for cls t k e r c res t'
    using vivify_ok [of d t k e r c cls, OF ih5 that(1,2,3)] that(4) by simp
  have sp_pore: "str_split1 CHR ''.'' (''pore.'' @ nm) = [''pore'', nm]"
    and sp_throat: "str_split1 CHR ''.'' (''throat.'' @ nm) = [''throat'', nm]" for nm
    by (simp_all add: str_split1_def)
  have w: "lengths_ok (snd (base2_setitem cls (Suc d) s key val))"
    if ok: "lengths_ok s" and leaf: "leaf_ok key val" for cls s key val
  proof (cases "\<exists>e p. str_split1 CHR ''.'' key = [e, p]")
    case False
    then show ?thesis using ok by (cases val) (auto split: list.splits)
  next
    case True
    then obtain e p where sp: "str_split1 CHR ''.'' key = [e, p]" by blast
    show ?thesis
    proof (cases val)
      case PNone
      with ok show ?thesis by simp
    next
      case (PScalar x)
      have "shape (np_array_ndmin1 x) \<noteq> 1 # l # tr" for l tr
        by (simp add: np_array_ndmin1_def)
      with ok sp leaf PScalar have "lengths_ok (snd (base2_write s key e (np_array_ndmin1 x)))"
        by (intro base2_write_lengths) auto
      with sp PScalar show ?thesis by simp
    next
      case (PArr a)
      with leaf have "length (shape a) \<le> 1" by simp
      then have "shape a \<noteq> 1 # l # tr" for l tr by auto
      with ok sp leaf PArr have "lengths_ok (snd (base2_write s key e a))"
        by (intro base2_write_lengths) auto
      with sp PArr show ?thesis by simp
    next
      case (PDict kvs)
      with leaf have "list_all (\<lambda>(k, v). leaf_ok (key @ ''.'' @ k) v) kvs" by simp
      from ih2 [OF ok this, of cls] sp PDict show ?thesis by simp
    qed
  qed
  have g: "lengths_ok (snd (base2_getitem cls (Suc d) s key))" if ok: "lengths_ok s" for cls s key
  proof (rule base2_getitem_cases [where P = "\<lambda>res. lengths_ok (snd res)"
        and cls = cls and d = d and s = s and key = key]; (simp add: ok; fail)?)
    fix e p np x s1
    assume "Np s = Inr np"
      and "self_setitem cls d s (''pore.'' @ name s) (PArr (np_ones_bool np)) = (Inl x, s1)"
    then show "lengths_ok (snd (Inl x :: exn + rval, s1))"
      using viv [OF ok sp_pore] by (simp add: Np_def)
  next
    fix e p np s1 x
    assume "Np s = Inr np"
      and "self_setitem cls d s (''pore.'' @ name s) (PArr (np_ones_bool np)) = (Inr (), s1)"
    then show "lengths_ok (snd (Inl x :: exn + rval, s1))"
      using viv [OF ok sp_pore] by (simp add: Np_def)
  next
    fix e p np s1 nt x s2
    assume "Np s = Inr np"
      and "self_setitem cls d s (''pore.'' @ name s) (PArr (np_ones_bool np)) = (Inr (), s1)"
    then have ok1: "lengths_ok s1" using viv [OF ok sp_pore] by (simp add: Np_def)
    assume "Nt s1 = Inr nt"
      and "self_setitem cls d s1 (''throat.'' @ name s1) (PArr (np_ones_bool nt)) = (Inl x, s2)"
    then show "lengths_ok (snd (Inl x :: exn + rval, s2))"
      using viv [OF ok1 sp_throat] by (simp add: Nt_def)
  next
    fix e p np s1 nt s2
    assume "Np s = Inr np"
      and "self_setitem cls d s (''pore.'' @ name s) (PArr (np_ones_bool np)) = (Inr (), s1)"
    then have ok1: "lengths_ok s1" using viv [OF ok sp_pore] by (simp add: Np_def)
    assume "Nt s1 = Inr nt"
      and "self_setitem cls d s1 (''throat.'' @ name s1) (PArr (np_ones_bool nt)) = (Inr (), s2)"
    then have "lengths_ok s2" using viv [OF ok1 sp_throat] by (simp add: Nt_def)
    then show "lengths_ok (snd (self_getitem cls d s2 key))" by (rule hg)
  qed
  have dg: "lengths_ok (snd (domain_getitem (Suc d) s key))" if ok: "lengths_ok s" for s key
  proof (rule domain_getitem_cases [where P = "\<lambda>res. lengths_ok (snd res)"
        and d = d and s = s and key = key]; (simp add: ok ih3; fail)?)
    fix e p x s1
    assume "base2_getitem Domain d s
              (e @ ''.'' @ last (str_split CHR ''.'' (str_split CHR ''@'' key ! 1))) = (Inl x, s1)"
    then show "lengths_ok (snd (Inl x :: exn + rval, s1))" using b3 [OF ok] by simp
  next
    fix e p locs s1 x s2
    assume "base2_getitem Domain d s
              (e @ ''.'' @ last (str_split CHR ''.'' (str_split CHR ''@'' key ! 1))) = (Inr locs, s1)"
    then have "lengths_ok s1" by (rule b3 [OF ok])
    moreover assume "base2_getitem Domain d s1 (e @ ''.'' @ p) = (Inl x, s2)"
    ultimately show "lengths_ok (snd (Inl x :: exn + rval, s2))" using b3 by simp
  next
    fix e p locs s1 vals s2
    assume "base2_getitem Domain d s
              (e @ ''.'' @ last (str_split CHR ''.'' (str_split CHR ''@'' key ! 1))) = (Inr locs, s1)"
    then have "lengths_ok s1" by (rule b3 [OF ok])
    moreover assume "base2_getitem Domain d s1 (e @ ''.'' @ p) = (Inr vals, s2)"
    ultimately show "lengths_ok (snd (py_index vals locs, s2))" using b3 by simp
  qed
  have ds: "lengths_ok (snd (domain_setitem (Suc d) s key val))"
    if ok: "lengths_ok s" and leaf: "leaf_ok key val" for s key val
  proof -
  have seed: "lengths_ok (snd (base2_setitem Domain d t k (PArr (seed_array n val))))"
    if "lengths_ok t" "map_of (items t) k = None" for t k n
    using that seed_array_flat [OF leaf_ok_axes [OF leaf]] by (intro setitem_absent_ok) auto
  show ?thesis
  proof (rule domain_setitem_cases [where P = "\<lambda>res. lengths_ok (snd res)"
        and d = d and s = s and key = key and val = val]; (simp add: ok leaf ih1; fail)?)
    fix e p x s1
    assume "base2_getitem Domain d s
              (e @ ''.'' @ last (str_split CHR ''.'' (str_split CHR ''@'' key ! 1))) = (Inl x, s1)"
    then show "lengths_ok (snd (Inl x :: exn + unit, s1))" using b3 [OF ok] by simp
  next
    fix e p locs s1 x s2
    assume "base2_getitem Domain d s
              (e @ ''.'' @ last (str_split CHR ''.'' (str_split CHR ''@'' key ! 1))) = (Inr locs, s1)"
    then have "lengths_ok s1" by (rule b3 [OF ok])
    moreover assume "domain_getitem d s1 (e @ ''.'' @ p) = (Inl x, s2)"
    ultimately show "lengths_ok (snd (Inl x :: exn + unit, s2))" using b4 by simp
  next
    fix e p locs s1 vals s2 x
    assume "base2_getitem Domain d s
              (e @ ''.'' @ last (str_split CHR ''.'' (str_split CHR ''@'' key ! 1))) = (Inr locs, s1)"
    then have "lengths_ok s1" by (rule b3 [OF ok])
    moreover assume "domain_getitem d s1 (e @ ''.'' @ p) = (Inr vals, s2)"
    ultimately show "lengths_ok (snd (Inl x :: exn + unit, s2))" using b4 by simp
  next
    fix e p locs s1 vals s2 a
    assume sp: "str_split1 CHR ''.'' (str_split CHR ''@'' key ! 0) = [e, p]"
    assume "base2_getitem Domain d s
              (e @ ''.'' @ last (str_split CHR ''.'' (str_split CHR ''@'' key ! 1))) = (Inr locs, s1)"
    then have "lengths_ok s1" by (rule b3 [OF ok])
    moreover assume c2: "domain_getitem d s1 (e @ ''.'' @ p) = (Inr vals, s2)"
    ultimately have ok2: "lengths_ok s2" by (rule b4)
    assume "py_assign vals locs False val = Inr a"
    then obtain a0 where vals: "vals = RArr a0" and sh: "shape a = shape a0"
      using py_assign_shape by blast
    note noat = target_noat [OF sp]
    have pre: "map_of (items s2) (e @ ''.'' @ p) = Some a0"
      using domain_read_key(1) [OF noat] c2 vals by simp
    have "lengths_ok (dict_store s2 (e @ ''.'' @ p) a)"
      using pre sh ok2 by (rule ok_update_shape)
    moreover have "map_of (items (dict_store s2 (e @ ''.'' @ p) a)) (e @ ''.'' @ p) = Some a"
      by (simp add: dict_store_def map_of_dict_update)
    ultimately show "lengths_ok (snd (domain_setitem d (dict_store s2 (e @ ''.'' @ p) a)
                                        (e @ ''.'' @ p) (PArr a)))"
      using noat by (intro setitem_present_ok)
  next
    fix e p locs s1 k s2 x
    assume "base2_getitem Domain d s
              (e @ ''.'' @ last (str_split CHR ''.'' (str_split CHR ''@'' key ! 1))) = (Inr locs, s1)"
    then have "lengths_ok s1" by (rule b3 [OF ok])
    moreover assume "domain_getitem d s1 (e @ ''.'' @ p) = (Inl (KeyError k), s2)"
    ultimately show "lengths_ok (snd (Inl x :: exn + unit, s2))" using b4 by simp
  next
    fix e p locs s1 k s2
    assume "base2_getitem Domain d s
              (e @ ''.'' @ last (str_split CHR ''.'' (str_split CHR ''@'' key ! 1))) = (Inr locs, s1)"
    then have "lengths_ok s1" by (rule b3 [OF ok])
    moreover assume "domain_getitem d s1 (e @ ''.'' @ p) = (Inl (KeyError k), s2)"
    ultimately show "lengths_ok (snd (Inl TypeError :: exn + unit, s2))" using b4 by simp
  next
    fix e p locs s1 k s2 np x s3
    assume sp: "str_split1 CHR ''.'' (str_split CHR ''@'' key ! 0) = [e, p]"
    assume "base2_getitem Domain d s
              (e @ ''.'' @ last (str_split CHR ''.'' (str_split CHR ''@'' key ! 1))) = (Inr locs, s1)"
    then have "lengths_ok s1" by (rule b3 [OF ok])
    moreover assume c2: "domain_getitem d s1 (e @ ''.'' @ p) = (Inl (KeyError k), s2)"
    ultimately have ok2: "lengths_ok s2" by (rule b4)
    have abs: "map_of (items s2) (e @ ''.'' @ p) = None"
      using domain_read_key(2) [OF target_noat [OF sp]] c2 by simp
    assume "base2_setitem Domain d s2 (e @ ''.'' @ p) (PArr (seed_array np val)) = (Inl x, s3)"
    then show "lengths_ok (snd (Inl x :: exn + unit, s3))"
      using seed [OF ok2 abs, of np] by simp
  next
    fix e p locs s1 k s2 np s3 x s4
    assume sp: "str_split1 CHR ''.'' (str_split CHR ''@'' key ! 0) = [e, p]"
    assume "base2_getitem Domain d s
              (e @ ''.'' @ last (str_split CHR ''.'' (str_split CHR ''@'' key ! 1))) = (Inr locs, s1)"
    then have "lengths_ok s1" by (rule b3 [OF ok])
    moreover assume c2: "domain_getitem d s1 (e @ ''.'' @ p) = (Inl (KeyError k), s2)"
    ultimately have ok2: "lengths_ok s2" by (rule b4)
    have abs: "map_of (items s2) (e @ ''.'' @ p) = None"
      using domain_read_key(2) [OF target_noat [OF sp]] c2 by simp
    assume "base2_setitem Domain d s2 (e @ ''.'' @ p) (PArr (seed_array np val)) = (Inr (), s3)"
    then have "lengths_ok s3"
      using seed [OF ok2 abs, of np] by simp
    moreover assume "domain_getitem d s3 (e @ ''.'' @ p) = (Inl x, s4)"
    ultimately show "lengths_ok (snd (Inl x :: exn + unit, s4))" using b4 by simp
  next
    fix e p locs s1 k s2 np s3 vals s4 x
    assume sp: "str_split1 CHR ''.'' (str_split CHR ''@'' key ! 0) = [e, p]"
    assume "base2_getitem Domain d s
              (e @ ''.'' @ last (str_split CHR ''.'' (str_split CHR ''@'' key ! 1))) = (Inr locs, s1)"
    then have "lengths_ok s1" by (rule b3 [OF ok])
    moreover assume c2: "domain_getitem d s1 (e @ ''.'' @ p) = (Inl (KeyError k), s2)"
    ultimately have ok2: "lengths_ok s2" by (rule b4)
    have abs: "map_of (items s2) (e @ ''.'' @ p) = None"
      using domain_read_key(2) [OF target_noat [OF sp]] c2 by simp
    assume "base2_setitem Domain d s2 (e @ ''.'' @ p) (PArr (seed_array np val)) = (Inr (), s3)"
    then have "lengths_ok s3"
      using seed [OF ok2 abs, of np] by simp
    moreover assume "domain_getitem d s3 (e @ ''.'' @ p) = (Inr vals, s4)"
    ultimately show "lengths_ok (snd (Inl x :: exn + unit, s4))" using b4 by simp
  next
    fix e p locs s1 k s2 np s3 vals s4 a
    assume sp: "str_split1 CHR ''.'' (str_split CHR ''@'' key ! 0) = [e, p]"
    assume "base2_getitem Domain d s
              (e @ ''.'' @ last (str_split CHR ''.'' (str_split CHR ''@'' key ! 1))) = (Inr locs, s1)"
    then have "lengths_ok s1" by (rule b3 [OF ok])
    moreover assume c2: "domain_getitem d s1 (e @ ''.'' @ p) = (Inl (KeyError k), s2)"
    ultimately have ok2: "lengths_ok s2" by (rule b4)
    have abs: "map_of (items s2) (e @ ''.'' @ p) = None"
      using domain_read_key(2) [OF target_noat [OF sp]] c2 by simp
    assume "base2_setitem Domain d s2 (e @ ''.'' @ p) (PArr (seed_array np val)) = (Inr (), s3)"
    then have "lengths_ok s3"
      using seed [OF ok2 abs, of np] by simp
    moreover assume c4: "domain_getitem d s3 (e @ ''.'' @ p) = (Inr vals, s4)"
    ultimately have ok4: "lengths_ok s4" by (rule b4)
    assume "py_assign vals locs True val = Inr a"
    then obtain a0 where vals: "vals = RArr a0" and sh: "shape a = shape a0"
      using py_assign_shape by blast
    have pre: "map_of (items s4) (e @ ''.'' @ p) = Some a0"
      using domain_read_key(1) [OF target_noat [OF sp]] c4 vals by simp
    show "lengths_ok (snd (Inr () :: exn + unit, dict_store s4 (e @ ''.'' @ p) a))"
      using ok_update_shape [OF pre sh ok4] by simp
  qed
  qed
  have set1: "lengths_ok (snd (self_setitem cls (Suc d) t k v))"
    if "lengths_ok t" "leaf_ok k v" for cls t k v
    using w [OF that] ds [OF that] by (cases cls) (simp_all add: self_setitem_def)
  have each: "lengths_ok (snd (setitem_each cls (Suc d) s key kvs))"
    if ok: "lengths_ok s" and leaf: "list_all (\<lambda>(k, v). leaf_ok (key @ ''.'' @ k) v) kvs"
    for cls s key kvs
  proof (rule setitem_each_keeps [where I = lengths_ok, OF _ ok])
    fix t k v
    assume "lengths_ok t" and "(k, v) \<in> set kvs"
    with leaf have "leaf_ok (key @ ''.'' @ k) v" by (auto simp: list_all_iff)
    with \<open>lengths_ok t\<close> show "lengths_ok (snd (self_setitem cls (Suc d) t (key @ ''.'' @ k) v))"
      by (rule set1)
  qed
  from w each g dg ds show ?case by blast
qed

lemma py_index_no_group: "py_index vals locs \<noteq> Inr (RGroup g)"
proof (cases vals)
  case (RArr a)
  then show ?thesis
    by (cases locs) (auto simp: map_sum_def split: sum.splits)
next
  case (RGroup h)
  then show ?thesis by simp
qed

text \<open>A read that returns a group has not changed the store.\<close>

lemma read_group_all:
  "(\<forall>cls s key g. fst (base2_getitem cls d s key) = Inr (RGroup g)
      \<longrightarrow> snd (base2_getitem cls d s key) = s \<and> str_split CHR ''.'' key ! 1 \<noteq> name s)
 \<and> (\<forall>s key g. fst (domain_getitem d s key) = Inr (RGroup g)
      \<longrightarrow> snd (domain_getitem d s key) = s \<and> str_split CHR ''.'' key ! 1 \<noteq> name s)"
proof (induction d)
  case 0
  show ?case by simp
next
  case (Suc d)
  then have ih1: "\<And>cls s key g. fst (base2_getitem cls d s key) = Inr (RGroup g)
      \<Longrightarrow> snd (base2_getitem cls d s key) = s \<and> str_split CHR ''.'' key ! 1 \<noteq> name s"
    and ih2: "\<And>s key g. fst (domain_getitem d s key) = Inr (RGroup g)
      \<Longrightarrow> snd (domain_getitem d s key) = s \<and> str_split CHR ''.'' key ! 1 \<noteq> name s"
    by blast+
  have ih: "snd (self_getitem cls d s key) = s \<and> str_split CHR ''.'' key ! 1 \<noteq> name s"
    if "fst (self_getitem cls d s key) = Inr (RGroup g)" for cls s key g
    using that ih1 [of Base2 s key g] ih2 [of s key g]
    by (cases cls) (simp_all add: self_getitem_def)
  have g: "\<forall>g. fst (base2_getitem cls (Suc d) s key) = Inr (RGroup g)
      \<longrightarrow> snd (base2_getitem cls (Suc d) s key) = s \<and> str_split CHR ''.'' key ! 1 \<noteq> name s"
    for cls s key
  proof (rule base2_getitem_cases [where P = "\<lambda>res. \<forall>g. fst res = Inr (RGroup g)
      \<longrightarrow> snd res = s \<and> str_split CHR ''.'' key ! 1 \<noteq> name s"
        and cls = cls and d = d and s = s and key = key]; (simp; fail)?)
    fix e p np s1 nt s2
    assume nm: "str_split CHR ''.'' key ! 1 = name s"
      and w1: "self_setitem cls d s (''pore.'' @ name s) (PArr (np_ones_bool np)) = (Inr (), s1)"
      and w2: "self_setitem cls d s1 (''throat.'' @ name s1) (PArr (np_ones_bool nt)) = (Inr (), s2)"
    have "name s2 = name s" using names_kept(5) [OF w1] names_kept(5) [OF w2] by simp
    with nm have "str_split CHR ''.'' key ! 1 = name s2" by simp
    with ih [of cls s2 key] show "\<forall>g. fst (self_getitem cls d s2 key) = Inr (RGroup g)
      \<longrightarrow> snd (self_getitem cls d s2 key) = s \<and> str_split CHR ''.'' key ! 1 \<noteq> name s"
      by blast
  qed
  have dg: "\<forall>g. fst (domain_getitem (Suc d) s key) = Inr (RGroup g)
      \<longrightarrow> snd (domain_getitem (Suc d) s key) = s \<and> str_split CHR ''.'' key ! 1 \<noteq> name s"
    for s key
  proof (rule domain_getitem_cases [where P = "\<lambda>res. \<forall>g. fst res = Inr (RGroup g)
      \<longrightarrow> snd res = s \<and> str_split CHR ''.'' key ! 1 \<noteq> name s"
        and d = d and s = s and key = key]; (simp add: py_index_no_group; fail)?)
    show "\<forall>g. fst (base2_getitem Domain d s key) = Inr (RGroup g)
      \<longrightarrow> snd (base2_getitem Domain d s key) = s \<and> str_split CHR ''.'' key ! 1 \<noteq> name s"
      using ih1 [of Domain s key] by blast
  qed
  from g dg show ?case by blast
qed

lemma read_group:
  assumes "self_getitem cls d s key = (Inr (RGroup g), t)"
  shows "t = s"
  using read_group_all [of d] assms
  by (cases cls) (simp_all add: self_getitem_def, (metis fst_conv snd_conv)+)

lemma lengths_kept_read:
  assumes "lengths_ok s"
  shows "lengths_ok (snd (base2_getitem cls d s key))"
    and "lengths_ok (snd (domain_getitem d s key))"
    and "lengths_ok (snd (self_getitem cls d s key))"
proof -
  show 1: "lengths_ok (snd (base2_getitem cls d s key))" for cls
    using lengths_kept_all [of d] assms by blast
  show 2: "lengths_ok (snd (domain_getitem d s key))"
    using lengths_kept_all [of d] assms by blast
  show "lengths_ok (snd (self_getitem cls d s key))"
    using 1 [of Base2] 2 by (cases cls) (simp_all add: self_getitem_def)
qed

lemma count_items_all:
  assumes "\<forall>kv \<in> set kvs. startswith (fst kv) kind \<longrightarrow> (\<exists>tr. shape (snd kv) = n # tr)"
  shows "count_items kind kvs = Inr None \<or> count_items kind kvs = Inr (Some n)"
  using assms by (induction kvs) (auto split: if_splits)

lemma agree_of_all:
  assumes "\<forall>kv \<in> set (items s). startswith (fst kv) kind \<longrightarrow> (\<exists>tr. shape (snd kv) = n # tr)"
  shows "lengths_agree s kind"
proof -
  have lead: "case shape v of [] \<Rightarrow> False | l # _ \<Rightarrow> l = n"
    if "(k, v) \<in> set (items s)" "startswith k kind" for k v
    using assms that by fastforce
  from count_items_all [OF assms] show ?thesis
  proof
    assume "count_items kind (items s) = Inr None"
    then show ?thesis by (simp add: lengths_agree_def base2_count_def)
  next
    assume "count_items kind (items s) = Inr (Some n)"
    then show ?thesis
      using lead by (auto simp: lengths_agree_def base2_count_def list_all_iff)
  qed
qed

lemma uniform_all:
  assumes "lengths_uniform s kind"
  shows "\<exists>n. \<forall>kv \<in> set (items s). startswith (fst kv) kind \<longrightarrow> (\<exists>tr. shape (snd kv) = n # tr)"
proof (cases "base2_count s kind")
  case (Inl x)
  with assms show ?thesis by (simp add: lengths_uniform_def)
next
  case (Inr c)
  show ?thesis
  proof (cases c)
    case None
    with Inr have "\<forall>(k, v) \<in> set (items s). \<not> startswith k kind"
      by (simp add: base2_count_def count_items_None)
    then have "\<forall>kv \<in> set (items s). \<not> startswith (fst kv) kind" by auto
    then show ?thesis by blast
  next
    case (Some n)
    with Inr assms have all: "list_all (\<lambda>(k, v). startswith k kind \<longrightarrow>
                      (case shape v of [] \<Rightarrow> False | l # _ \<Rightarrow> l = n)) (items s)"
      by (simp add: lengths_uniform_def)
    have "\<exists>tr. shape v = n # tr" if "(k, v) \<in> set (items s)" "startswith k kind" for k v
    proof -
      from all that have "case shape v of [] \<Rightarrow> False | l # _ \<Rightarrow> l = n"
        by (auto simp: list_all_iff)
      then show ?thesis by (cases "shape v") auto
    qed
    then have "\<forall>kv \<in> set (items s). startswith (fst kv) kind \<longrightarrow> (\<exists>tr. shape (snd kv) = n # tr)"
      by auto
    then show ?thesis by blast
  qed
qed

lemma del_each_all:
  "\<forall>kv \<in> set (items s). Q kv \<Longrightarrow> \<forall>kv \<in> set (items (snd (del_each s ks))). Q kv"
proof (induction ks arbitrary: s)
  case Nil
  then show ?case by simp
next
  case (Cons k ks)
  have "\<forall>kv \<in> set (items (s\<lparr>items := filter (\<lambda>(k', v). k' \<noteq> k) (items s)\<rparr>)). Q kv"
    using Cons.prems by simp
  from Cons.IH [OF this] Cons.prems show ?case by simp
qed

lemma delitem_ok:
  assumes up: "lengths_uniform s ''pore''" and ut: "lengths_uniform s ''throat''"
  shows "lengths_ok (snd (base2_delitem cls d s key))"
proof -
  from uniform_all [OF up] obtain n where
    p: "\<forall>kv \<in> set (items s). startswith (fst kv) ''pore'' \<longrightarrow> (\<exists>tr. shape (snd kv) = n # tr)"
    by blast
  from uniform_all [OF ut] obtain m where
    t: "\<forall>kv \<in> set (items s). startswith (fst kv) ''throat'' \<longrightarrow> (\<exists>tr. shape (snd kv) = m # tr)"
    by blast
  have ok: "lengths_ok s" using p t by (simp add: lengths_ok_def agree_of_all)
  show ?thesis
  proof (cases d)
    case 0
    with ok show ?thesis by (simp add: base2_delitem_def)
  next
    case (Suc d')
    show ?thesis
    proof (cases "map_of (items s) key")
      case (Some a)
      have "lengths_ok (s\<lparr>items := filter (\<lambda>(k, v). k \<noteq> key) (items s)\<rparr>)"
        unfolding lengths_ok_def
      proof
        show "lengths_agree (s\<lparr>items := filter (\<lambda>(k, v). k \<noteq> key) (items s)\<rparr>) ''pore''"
          using p by (intro agree_of_all [where n = n]) simp
        show "lengths_agree (s\<lparr>items := filter (\<lambda>(k, v). k \<noteq> key) (items s)\<rparr>) ''throat''"
          using t by (intro agree_of_all [where n = m]) simp
      qed
      with Suc Some show ?thesis by (simp add: base2_delitem_def)
    next
      case None
      obtain r s1 where c: "self_getitem cls d' s key = (r, s1)" by force
      have ok1: "lengths_ok s1" using lengths_kept_read(3) [OF ok, of cls d' key] c by simp
      show ?thesis
      proof (cases r)
        case (Inl x)
        with Suc None c ok1 show ?thesis by (simp add: base2_delitem_def)
      next
        case (Inr v)
        show ?thesis
        proof (cases v)
          case (RArr a)
          with Inr Suc None c ok1 show ?thesis by (simp add: base2_delitem_def)
        next
          case (RGroup g)
          with Inr c have "s1 = s" using read_group by blast
          moreover have "lengths_ok (snd (del_each s (map fst g)))"
            unfolding lengths_ok_def
          proof
            show "lengths_agree (snd (del_each s (map fst g))) ''pore''"
              using del_each_all [OF p] by (rule agree_of_all)
            show "lengths_agree (snd (del_each s (map fst g))) ''throat''"
              using del_each_all [OF t] by (rule agree_of_all)
          qed
          ultimately show ?thesis
            using RGroup Inr Suc None c by (simp add: base2_delitem_def)
        qed
      qed
    qed
  qed
qed

text \<open>
  C5, as the code has it. The invariant I2 is that, for a kind whose count is \<open>n\<close>,
  every array stored under the kind, \<^verbatim>\<open>pore.coords\<close> and \<^verbatim>\<open>throat.conns\<close> apart, has
  leading length \<open>n\<close>. In a store where it holds, it holds again of the store that an
  operation leaves, whether the operation returns or raises,

  \<^item> after every write through \<^verbatim>\<open>Base2.__setitem__\<close> on either class, and through
    \<^verbatim>\<open>Domain.__setitem__\<close> under a key without \<^verbatim>\<open>@\<close>, of \<^verbatim>\<open>None\<close>, of a scalar or of an array
    that is not a multi-dimensional array of leading length 1, under a key other than
    \<^verbatim>\<open>pore.coords\<close> and \<^verbatim>\<open>throat.conns\<close>;

  \<^item> after every write through either method, under any key, those with \<^verbatim>\<open>@\<close> included,
    of a value whose arrays have at most one axis and whose leaf keys are neither
    \<^verbatim>\<open>pore.coords\<close> nor \<^verbatim>\<open>throat.conns\<close>: the value may be \<^verbatim>\<open>None\<close>, a scalar, an array or a
    dict of such values, nested to any depth, whose entries are written under the key
    extended by their own;

  \<^item> after every read through either method, under any key;

  \<^item> after every delete, on either class, in a store where the count of each kind can
    be read and every array of the kind, \<^verbatim>\<open>pore.coords\<close> and \<^verbatim>\<open>throat.conns\<close> included, has
    it as leading length.
\<close>

theorem lengths_preserved:
  assumes "lengths_ok s"
  shows "(key \<noteq> ''pore.coords'' \<and> key \<noteq> ''throat.conns''
          \<and> (\<forall>kvs. val \<noteq> PDict kvs) \<and> (\<forall>a l tr. val = PArr a \<longrightarrow> shape a \<noteq> 1 # l # tr)
          \<longrightarrow> lengths_ok (snd (base2_setitem cls d s key val))
            \<and> (CHR ''@'' \<notin> set key \<longrightarrow> lengths_ok (snd (domain_setitem d s key val))))
       \<and> (leaf_ok key2 val2
          \<longrightarrow> lengths_ok (snd (base2_setitem cls d s key2 val2))
            \<and> lengths_ok (snd (domain_setitem d s key2 val2)))
       \<and> lengths_ok (snd (base2_getitem cls d s key3))
       \<and> lengths_ok (snd (domain_getitem d s key3))
       \<and> (lengths_uniform s ''pore'' \<and> lengths_uniform s ''throat''
          \<longrightarrow> lengths_ok (snd (base2_delitem cls d s key4)))"
proof (intro conjI impI; (elim conjE)?)
  assume ex: "key \<noteq> ''pore.coords''" "key \<noteq> ''throat.conns''"
    and nd: "\<forall>kvs. val \<noteq> PDict kvs"
    and flat: "\<forall>a l tr. val = PArr a \<longrightarrow> shape a \<noteq> 1 # l # tr"
  have *: "lengths_ok (snd (base2_setitem c k s key val))" for c k
    using assms ex nd flat by (intro base2_setitem_lengths) auto
  show "lengths_ok (snd (base2_setitem cls d s key val))" by (rule *)
  assume "CHR ''@'' \<notin> set key"
  then show "lengths_ok (snd (domain_setitem d s key val))"
    using assms * [of Domain] by (cases d) simp_all
next
  assume leaf: "leaf_ok key2 val2"
  show "lengths_ok (snd (base2_setitem cls d s key2 val2))"
    using lengths_kept_all [of d] assms leaf by blast
  show "lengths_ok (snd (domain_setitem d s key2 val2))"
    using lengths_kept_all [of d] assms leaf by blast
next
  show "lengths_ok (snd (base2_getitem cls d s key3))"
    using assms by (rule lengths_kept_read(1))
  show "lengths_ok (snd (domain_getitem d s key3))"
    using assms by (rule lengths_kept_read(2))
next
  assume "lengths_uniform s ''pore''" and "lengths_uniform s ''throat''"
  then show "lengths_ok (snd (base2_delitem cls d s key4))" by (rule delitem_ok)
qed

theorem lengths_preserved_witness:
  "lengths_ok ex_store
   \<and> CHR ''@'' \<notin> set ''pore.x''
   \<and> leaf_ok ''pore.seed@left'' (PArr \<lparr>dtype = DFloat, shape = [3], data = [PFloat 1, PFloat 2, PFloat 3]\<rparr>)
   \<and> lengths_uniform ex_store ''pore'' \<and> lengths_uniform ex_store ''throat''
   \<and> lengths_ok (snd (base2_setitem Base2 3 ex_store ''pore.x''
                         (PArr \<lparr>dtype = DFloat, shape = [1], data = [PFloat 5]\<rparr>)))
   \<and> lengths_ok (snd (domain_setitem 3 ex_store ''pore.x''
                         (PArr \<lparr>dtype = DFloat, shape = [1], data = [PFloat 5]\<rparr>)))
   \<and> lengths_ok (snd (base2_setitem Base2 3 ex_store ''pore.seed@left''
                         (PArr \<lparr>dtype = DFloat, shape = [3], data = [PFloat 1, PFloat 2, PFloat 3]\<rparr>)))
   \<and> lengths_ok (snd (domain_setitem 3 ex_store ''pore.seed@left''
                         (PArr \<lparr>dtype = DFloat, shape = [3], data = [PFloat 1, PFloat 2, PFloat 3]\<rparr>)))
   \<and> lengths_ok (snd (base2_getitem Base2 3 ex_store ''pore.bob''))
   \<and> lengths_ok (snd (domain_getitem 3 ex_store ''pore.bob''))
   \<and> lengths_ok (snd (base2_delitem Base2 3 ex_store ''pore.left''))"
proof -
  have h1: "lengths_ok ex_store"
    by (simp add: lengths_ok_def lengths_agree_def base2_count_def ex_store_def np_full_def
        ex_left_def ex_tleft_def)
  have h2: "''pore.x'' \<noteq> ''pore.coords''" "''pore.x'' \<noteq> ''throat.conns''"
    "CHR ''@'' \<notin> set ''pore.x''" by simp_all
  have h3: "\<forall>kvs. PArr \<lparr>dtype = DFloat, shape = [1], data = [PFloat 5]\<rparr> \<noteq> PDict kvs" by simp
  have h4: "\<forall>a l tr. PArr \<lparr>dtype = DFloat, shape = [1], data = [PFloat 5]\<rparr> = PArr a
              \<longrightarrow> shape a \<noteq> 1 # l # tr" by auto
  have h5: "leaf_ok ''pore.seed@left''
              (PArr \<lparr>dtype = DFloat, shape = [3], data = [PFloat 1, PFloat 2, PFloat 3]\<rparr>)"
    by simp
  have h6: "lengths_uniform ex_store ''pore''" "lengths_uniform ex_store ''throat''"
    by (simp_all add: lengths_uniform_def base2_count_def ex_store_def np_full_def
        ex_left_def ex_tleft_def)
  show ?thesis
    using lengths_preserved [OF h1, of "''pore.x''"
        "PArr \<lparr>dtype = DFloat, shape = [1], data = [PFloat 5]\<rparr>"
        Base2 3 "''pore.seed@left''"
        "PArr \<lparr>dtype = DFloat, shape = [3], data = [PFloat 1, PFloat 2, PFloat 3]\<rparr>"
        "''pore.bob''" "''pore.left''"]
      h1 h2 h3 h4 h5 h6
    by (simp del: base2_setitem.simps domain_setitem.simps base2_getitem.simps
        domain_getitem.simps leaf_ok.simps)
qed

text \<open>
  C5 as stated fails, in three ways. \<^verbatim>\<open>pore.coords\<close> is stored without any check, so
  overwriting it with five rows in the example network makes the pore count 5 while
  \<^verbatim>\<open>pore.left\<close> keeps its nine entries. Deleting the array that gives the count hands the
  count to the next one: where that is a \<^verbatim>\<open>pore.coords\<close> of five rows beside arrays of
  nine, the invariant holds before the delete and not after. And a domain write of an
  array with two axes, to a throat property that does not exist yet in a network of one
  pore and two throats, stores a seed array of leading length 1 under it.
\<close>

theorem lengths_counterexample:
  "lengths_ok ex_store
   \<and> fst (base2_setitem Base2 1 ex_store ''pore.coords'' (PArr (np_full DFloat [5, 3] (PFloat 0))))
      = Inr ()
   \<and> Np (snd (base2_setitem Base2 1 ex_store ''pore.coords'' (PArr (np_full DFloat [5, 3] (PFloat 0)))))
      = Inr (Some 5)
   \<and> \<not> lengths_ok (snd (base2_setitem Base2 1 ex_store ''pore.coords''
                            (PArr (np_full DFloat [5, 3] (PFloat 0)))))
   \<and> lengths_ok ex_mixed
   \<and> fst (base2_delitem Base2 1 ex_mixed ''pore.a'') = Inr ()
   \<and> \<not> lengths_ok (snd (base2_delitem Base2 1 ex_mixed ''pore.a''))
   \<and> lengths_ok ex_one_pore
   \<and> \<not> lengths_ok (snd (domain_setitem 3 ex_one_pore ''throat.x@left''
                            (PArr \<lparr>dtype = DFloat, shape = [1, 2], data = [PFloat 1, PFloat 2]\<rparr>)))"
  by code_simp

section \<open>The store's own label\<close>

lemma ones_write:
  assumes "str_split1 CHR ''.'' key = [e, r]" and "e = ''pore'' \<or> e = ''throat''"
    and "base2_count s e = Inr (Some n)"
  shows "base2_write s key e (np_ones_bool (Some n))
         = (Inr (), dict_store s key (np_ones_bool (Some n)))"
  using assms by (auto simp: base2_write_def ones_times_1d)

text \<open>
  What \<^verbatim>\<open>self[key] = np.ones(n, dtype=bool)\<close> does on an object of either class, at any
  depth, for a key without \<^verbatim>\<open>@\<close> of a kind whose count is \<open>n\<close>.
\<close>

lemma vivify_write:
  assumes "str_split1 CHR ''.'' key = [e, r]" and "e = ''pore'' \<or> e = ''throat''"
    and "CHR ''@'' \<notin> set key"
    and "base2_count s e = Inr (Some n)"
  shows "(case cls of
            Base2 \<Rightarrow> base2_setitem Base2 d s key (PArr (np_ones_bool (Some n)))
          | Domain \<Rightarrow> domain_setitem d s key (PArr (np_ones_bool (Some n))))
         = (if d = 0 \<or> (cls = Domain \<and> d = 1) then (Inl RecursionError, s)
            else (Inr (), dict_store s key (np_ones_bool (Some n))))"
proof (cases d)
  case 0
  then show ?thesis by (cases cls) simp_all
next
  case (Suc d')
  show ?thesis
  proof (cases d')
    case 0
    with Suc assms show ?thesis
      by (cases cls) (simp_all add: ones_write del: np_ones_bool.simps)
  next
    case (Suc d'')
    with \<open>d = Suc d'\<close> assms show ?thesis
      by (cases cls) (simp_all add: ones_write del: np_ones_bool.simps)
  qed
qed

text \<open>
  The spec's P7, for either class: in a store named \<open>nm\<close> whose counts are both
  established, reading the absent \<^verbatim>\<open>pore.nm\<close> stores both labels and returns \<open>Np\<close>
  times \<^verbatim>\<open>True\<close>.
\<close>

lemma self_label_vivify:
  assumes nm: "name s = nm" "CHR ''.'' \<notin> set nm" "CHR ''@'' \<notin> set nm"
    and absent: "map_of (items s) (''pore.'' @ nm) = None"
    and np: "Np s = Inr (Some np)" and nt: "Nt s = Inr (Some nt)"
  shows "base2_getitem cls (Suc (Suc (Suc d))) s (''pore.'' @ nm)
         = (Inr (RArr (np_ones_bool (Some np))),
            dict_store (dict_store s (''pore.'' @ nm) (np_ones_bool (Some np)))
              (''throat.'' @ nm) (np_ones_bool (Some nt)))"
proof -
  define s1 where "s1 = dict_store s (''pore.'' @ nm) (np_ones_bool (Some np))"
  define s2 where "s2 = dict_store s1 (''throat.'' @ nm) (np_ones_bool (Some nt))"
  have sp: "str_split1 CHR ''.'' (''pore.'' @ nm) = [''pore'', nm]"
    "str_split1 CHR ''.'' (''throat.'' @ nm) = [''throat'', nm]"
    by (simp_all add: str_split1_def)
  have seg: "str_split CHR ''.'' (''pore.'' @ nm) ! 1 = nm"
    using second_segment [of "''pore''" nm] nm(2) by simp
  have noat: "CHR ''@'' \<notin> set (''pore.'' @ nm)" "CHR ''@'' \<notin> set (''throat.'' @ nm)"
    using nm(3) by simp_all
  have w1: "(case cls of
               Base2 \<Rightarrow> base2_setitem Base2 (Suc (Suc d)) s (''pore.'' @ nm) (PArr (np_ones_bool (Some np)))
             | Domain \<Rightarrow> domain_setitem (Suc (Suc d)) s (''pore.'' @ nm) (PArr (np_ones_bool (Some np))))
            = (Inr (), s1)"
    using vivify_write [OF sp(1) _ noat(1), where s = s and n = np and cls = cls and d = "Suc (Suc d)"] np
    by (simp add: Np_def s1_def del: np_ones_bool.simps)
  have nt1: "Nt s1 = Inr (Some nt)" and nm1: "name s1 = nm"
    using nt nm(1)
    by (simp_all add: Nt_def s1_def dict_store_def base2_count_def count_update_other)
  have w2: "(case cls of
               Base2 \<Rightarrow> base2_setitem Base2 (Suc (Suc d)) s1 (''throat.'' @ nm) (PArr (np_ones_bool (Some nt)))
             | Domain \<Rightarrow> domain_setitem (Suc (Suc d)) s1 (''throat.'' @ nm) (PArr (np_ones_bool (Some nt))))
            = (Inr (), s2)"
    using vivify_write [OF sp(2) _ noat(2), where s = s1 and n = nt and cls = cls and d = "Suc (Suc d)"] nt1
    by (simp add: Nt_def s2_def del: np_ones_bool.simps)
  have look: "map_of (items s2) (''pore.'' @ nm) = Some (np_ones_bool (Some np))"
    by (simp add: s2_def s1_def dict_store_def map_of_dict_update)
  have g: "(case cls of
              Base2 \<Rightarrow> base2_getitem Base2 (Suc (Suc d)) s2 (''pore.'' @ nm)
            | Domain \<Rightarrow> domain_getitem (Suc (Suc d)) s2 (''pore.'' @ nm))
           = (Inr (RArr (np_ones_bool (Some np))), s2)"
    using sp(1) look noat(1) by (cases cls) simp_all
  have "base2_getitem cls (Suc (Suc (Suc d))) s (''pore.'' @ nm)
        = (Inr (RArr (np_ones_bool (Some np))), s2)"
    unfolding base2_getitem.simps(2) [of cls "Suc (Suc d)" s "''pore.'' @ nm"]
    using sp(1) absent seg nm(1) np w1 nt1 nm1 w2 g
    by (cases cls)
      (simp_all del: base2_setitem.simps domain_setitem.simps base2_getitem.simps
        domain_getitem.simps)
  then show ?thesis by (simp add: s2_def s1_def)
qed

text \<open>
  The test for the store's own name is \<^verbatim>\<open>key.split('.')[1] == self.name\<close>, the second
  segment of the key, and the retry is \<^verbatim>\<open>self[key]\<close> with the same key. For a missing key
  with that second segment which is not one of the two labels, the retry misses again,
  stores the labels again and retries again: the read never returns, at any depth.
\<close>

lemma self_label_loop:
  assumes nm: "name s = nm" "CHR ''.'' \<notin> set nm" "CHR ''@'' \<notin> set nm"
    and key: "str_split1 CHR ''.'' key = [e, r]" "str_split CHR ''.'' key ! 1 = nm"
      "key \<noteq> ''pore.'' @ nm" "key \<noteq> ''throat.'' @ nm" "CHR ''@'' \<notin> set key"
    and absent: "map_of (items s) key = None"
    and np: "Np s = Inr (Some np)" and nt: "Nt s = Inr (Some nt)"
  shows "fst (base2_getitem cls d s key) = Inl RecursionError
       \<and> fst (domain_getitem d s key) = Inl RecursionError"
  using nm(1) absent np nt
proof (induction d arbitrary: s cls)
  case 0
  then show ?case by simp
next
  case (Suc d)
  define s1 where "s1 = dict_store s (''pore.'' @ nm) (np_ones_bool (Some np))"
  define s2 where "s2 = dict_store s1 (''throat.'' @ nm) (np_ones_bool (Some nt))"
  have sp: "str_split1 CHR ''.'' (''pore.'' @ nm) = [''pore'', nm]"
    "str_split1 CHR ''.'' (''throat.'' @ nm) = [''throat'', nm]"
    by (simp_all add: str_split1_def)
  have noat: "CHR ''@'' \<notin> set (''pore.'' @ nm)" "CHR ''@'' \<notin> set (''throat.'' @ nm)"
    using nm(3) by simp_all
  have w1: "(case c of
               Base2 \<Rightarrow> base2_setitem Base2 d s (''pore.'' @ nm) (PArr (np_ones_bool (Some np)))
             | Domain \<Rightarrow> domain_setitem d s (''pore.'' @ nm) (PArr (np_ones_bool (Some np))))
            = (if d = 0 \<or> (c = Domain \<and> d = 1) then (Inl RecursionError, s) else (Inr (), s1))" for c
    using vivify_write [OF sp(1) _ noat(1), where s = s and n = np and cls = c and d = d] Suc.prems(3)
    by (simp add: Np_def s1_def del: np_ones_bool.simps)
  have nt1: "Nt s1 = Inr (Some nt)" and nm1: "name s1 = nm"
    using Suc.prems(1,4)
    by (simp_all add: Nt_def s1_def dict_store_def base2_count_def count_update_other)
  have w2: "(case c of
               Base2 \<Rightarrow> base2_setitem Base2 d s1 (''throat.'' @ nm) (PArr (np_ones_bool (Some nt)))
             | Domain \<Rightarrow> domain_setitem d s1 (''throat.'' @ nm) (PArr (np_ones_bool (Some nt))))
            = (if d = 0 \<or> (c = Domain \<and> d = 1) then (Inl RecursionError, s1) else (Inr (), s2))" for c
    using vivify_write [OF sp(2) _ noat(2), where s = s1 and n = nt and cls = c and d = d] nt1
    by (simp add: Nt_def s2_def del: np_ones_bool.simps)
  have inv2: "name s2 = nm" "map_of (items s2) key = None"
    "Np s2 = Inr (Some np)" "Nt s2 = Inr (Some nt)"
    using Suc.prems key(3,4)
    by (simp_all add: s2_def s1_def dict_store_def map_of_dict_update Np_def Nt_def
        base2_count_def count_update_other count_update_same)
  note ih = Suc.IH [OF inv2]
  have b: "fst (base2_getitem c (Suc d) s key) = Inl RecursionError" for c
    unfolding base2_getitem.simps(2) [of c d s key]
    using key(1,2) Suc.prems w1 [of c] nt1 nm1 w2 [of c] ih [of Base2] ih [of Domain]
    by (cases c)
      (simp_all del: base2_setitem.simps domain_setitem.simps base2_getitem.simps
        domain_getitem.simps)
  have "fst (domain_getitem (Suc d) s key) = Inl RecursionError"
    using key(5) Suc.IH [OF Suc.prems, of Domain]
    by (simp del: base2_getitem.simps)
  with b show ?case by simp
qed

text \<open>
  C2 at the key \<^verbatim>\<open>pore.bob.x\<close> in the example network, whose store is named \<^verbatim>\<open>bob\<close>. The
  key is absent, its remainder after the first dot, \<^verbatim>\<open>bob.x\<close>, is not the store's name,
  and no stored key starts with \<^verbatim>\<open>pore.bob.x.\<close>: by the claim the read fails with the
  missing-key error. The code compares the second segment, \<^verbatim>\<open>bob\<close>, with the name, and
  the read ends in \<^verbatim>\<open>RecursionError\<close> whatever the depth it is given, in both classes.
\<close>

theorem nested_self_label_diverges:
  "map_of (items ex_store) ''pore.bob.x'' = None
   \<and> str_split1 CHR ''.'' ''pore.bob.x'' = [''pore'', ''bob.x'']
   \<and> ''bob.x'' \<noteq> name ex_store
   \<and> filter (\<lambda>(k, v). startswith k ''pore.bob.x.'') (items ex_store) = []
   \<and> fst (base2_getitem cls d ex_store ''pore.bob.x'') = Inl RecursionError
   \<and> fst (domain_getitem d ex_store ''pore.bob.x'') = Inl RecursionError"
proof -
  have sp: "str_split1 CHR ''.'' ''pore.bob.x'' = [''pore'', ''bob.x'']"
    by (simp add: str_split1_def)
  have absent: "map_of (items ex_store) ''pore.bob.x'' = None" by (simp add: ex_store_def)
  have counts: "Np ex_store = Inr (Some 9)" "Nt ex_store = Inr (Some 12)"
    by (simp_all add: Np_def Nt_def base2_count_def ex_store_def np_full_def)
  have "fst (base2_getitem cls d ex_store ''pore.bob.x'') = Inl RecursionError
      \<and> fst (domain_getitem d ex_store ''pore.bob.x'') = Inl RecursionError"
    using sp absent counts
    by (intro self_label_loop [where nm = "''bob''"]) (simp_all add: ex_store_def)
  then show ?thesis using sp absent by (simp add: ex_store_def)
qed

section \<open>Which models a run executes\<close>

text \<open>
  For a name with one \<^verbatim>\<open>@\<close> and no dot after it, and a \<^verbatim>\<open>propname\<close> with an \<^verbatim>\<open>@\<close> that
  the name starts with, the key that the domain branch looks up is the name itself.
\<close>

lemma plain_lookup:
  assumes "plain_name item" and "startswith item p" and "CHR ''@'' \<in> set p"
  shows "lookup_name p (last (str_split CHR ''@'' item)) = item"
proof -
  from assms(2) obtain r where item: "item = p @ r" by (auto simp: startswith_iff)
  with assms(3) have "CHR ''@'' \<in> set item" by simp
  then have "str_split CHR ''@'' item \<noteq> [item]"
    using str_split_single [of "CHR ''@''" item item] by auto
  with assms(1) obtain a dm where sp: "str_split CHR ''@'' item = [a, dm]"
    and nodot: "CHR ''.'' \<notin> set dm"
    using str_split_single [of "CHR ''@''" item]
    by (auto simp: plain_name_def split: list.splits)
  note two = str_split_two [OF sp]
  have "takeWhile (\<lambda>x. x \<noteq> CHR ''@'') (p @ r) = takeWhile (\<lambda>x. x \<noteq> CHR ''@'') p"
    using assms(3) by (intro takeWhile_append1 [of "CHR ''@''"]) auto
  moreover have "takeWhile (\<lambda>x. x \<noteq> CHR ''@'') item = a"
    using str_split_first [of "CHR ''@''" item] sp by simp
  ultimately have "str_split CHR ''@'' p ! 0 = a"
    by (simp add: str_split_first item)
  then show ?thesis
    using sp nodot two(1) by (simp add: lookup_name_def str_split_no_sep)
qed

lemma run_model_domain_calls:
  assumes "run_model_domain d g p dm = (r, g')"
  shows "models g' = models g"
    and "r = Inr () \<Longrightarrow> calls g' = calls g @ [lookup_name p dm]"
proof -
  show "models g' = models g"
    using assms
    by (auto simp: run_model_domain_def Let_def
        split: list.splits option.splits sum.splits prod.splits if_splits pyval.splits)
  show "calls g' = calls g @ [lookup_name p dm]" if "r = Inr ()"
  proof (cases "str_split1 CHR ''.'' (str_split CHR ''@'' p ! 0)")
    case Nil
    with assms that show ?thesis by (simp add: run_model_domain_def)
  next
    case (Cons element tl1)
    show ?thesis
    proof (cases tl1)
      case Nil
      with Cons assms that show ?thesis by (simp add: run_model_domain_def)
    next
      case c2: (Cons rest tl2)
      show ?thesis
      proof (cases tl2)
        case Nil
        with Cons c2 have sp: "str_split1 CHR ''.'' (str_split CHR ''@'' p ! 0) = [element, rest]"
          by simp
        then have "str_split CHR ''@'' p ! 0 = element @ ''.'' @ rest"
          using str_split1_two(1) by fastforce
        then show ?thesis
          using assms that sp
          by (auto simp: run_model_domain_def Let_def lookup_name_def
              split: option.splits sum.splits prod.splits if_splits pyval.splits)
      next
        case c3: (Cons x tl3)
        with Cons c2 assms that show ?thesis by (simp add: run_model_domain_def)
      qed
    qed
  qed
qed

lemma run_items_calls:
  assumes "run_items d g p names = (r, g')"
  shows "models g' = models g
       \<and> (r = Inr () \<longrightarrow>
            calls g' = calls g @ map (\<lambda>item. lookup_name p (last (str_split CHR ''@'' item)))
                                     (filter (\<lambda>item. startswith item p) names))"
  using assms
proof (induction names arbitrary: g)
  case Nil
  then show ?case by simp
next
  case (Cons item rest)
  show ?case
  proof (cases "startswith item p")
    case False
    with Cons show ?thesis by simp
  next
    case True
    obtain r1 g1 where one: "run_model_domain d g p (last (str_split CHR ''@'' item)) = (r1, g1)"
      by (cases "run_model_domain d g p (last (str_split CHR ''@'' item))")
    note c = run_model_domain_calls [OF one]
    show ?thesis
    proof (cases r1)
      case (Inl e)
      with Cons.prems True one c show ?thesis by auto
    next
      case (Inr u)
      with Cons.prems True one have "run_items d g1 p rest = (r, g')" by simp
      from Cons.IH [OF this] c Inr True show ?thesis by simp
    qed
  qed
qed

lemma run_model_global_calls:
  assumes "run_model_global d g p = (r, g')"
  shows "models g' = models g" and "r = Inr () \<Longrightarrow> calls g' = calls g @ [p]"
  using assms
  by (auto simp: run_model_global_def
      split: list.splits option.splits sum.splits prod.splits if_splits)

text \<open>
  C1, as the code has it. With \<^verbatim>\<open>domain=None\<close>, \<^verbatim>\<open>run_model\<close> fans out only for a
  \<^verbatim>\<open>propname\<close> that contains \<^verbatim>\<open>@\<close>: when the call returns, it has executed, in
  registration order, the model of every registered name that starts with \<^verbatim>\<open>propname\<close>
  and nothing else (the names being of the form \<^verbatim>\<open>add_model\<close> gives them). A bare
  \<^verbatim>\<open>propname\<close> is looked up as it is: when it is not registered itself, the call raises
  \<^verbatim>\<open>KeyError\<close> (\<^verbatim>\<open>ValueError\<close> if the name has no dot), executes nothing and leaves
  the object as it was, whatever \<^verbatim>\<open>@\<close>-qualified entries there are.
\<close>

theorem lazy_fan_out:
  "(CHR ''@'' \<in> set propname \<and> (\<forall>item \<in> set (map fst (models g)). plain_name item)
    \<and> fst (run_model d g propname None) = Inr ()
    \<longrightarrow> calls (snd (run_model d g propname None))
        = calls g @ filter (\<lambda>item. startswith item propname) (map fst (models g)))
 \<and> (CHR ''@'' \<notin> set bare \<and> map_of (models g) bare = None
    \<longrightarrow> run_model d g bare None
        = (Inl (if CHR ''.'' \<in> set bare then KeyError bare else ValueError), g))"
proof (intro conjI impI; (elim conjE)?)
  assume at: "CHR ''@'' \<in> set propname"
    and plain: "\<forall>item \<in> set (map fst (models g)). plain_name item"
    and ok: "fst (run_model d g propname None) = Inr ()"
  obtain g' where run: "run_items d g propname (map fst (models g)) = (Inr (), g')"
    using at ok by (cases "run_items d g propname (map fst (models g))") (simp add: run_model_def)
  have "map (\<lambda>item. lookup_name propname (last (str_split CHR ''@'' item)))
          (filter (\<lambda>item. startswith item propname) (map fst (models g)))
        = filter (\<lambda>item. startswith item propname) (map fst (models g))"
    using plain at by (intro map_idI) (auto simp: plain_lookup)
  with run_items_calls [OF run] at run
  show "calls (snd (run_model d g propname None))
        = calls g @ filter (\<lambda>item. startswith item propname) (map fst (models g))"
    by (simp add: run_model_def)
next
  assume "CHR ''@'' \<notin> set bare" and "map_of (models g) bare = None"
  then show "run_model d g bare None
             = (Inl (if CHR ''.'' \<in> set bare then KeyError bare else ValueError), g)"
    by (simp add: run_model_def run_model_global_def str_split1_def)
qed

theorem lazy_fan_out_witness:
  "CHR ''@'' \<in> set ''pore.seed@left''
   \<and> list_all plain_name (map fst (models ex_obj))
   \<and> fst (run_model 4 ex_obj ''pore.seed@left'' None) = Inr ()
   \<and> calls (snd (run_model 4 ex_obj ''pore.seed@left'' None))
      = [''pore.seed@left'', ''pore.seed@leftmost'']
   \<and> CHR ''@'' \<notin> set ''pore.seed'' \<and> map_of (models ex_obj) ''pore.seed'' = None
   \<and> run_model 4 ex_obj ''pore.seed'' None = (Inl (KeyError ''pore.seed''), ex_obj)"
proof -
  have h1: "CHR ''@'' \<in> set ''pore.seed@left''" by simp
  have h2: "list_all plain_name (map fst (models ex_obj))"
    by (simp add: ex_obj_def plain_name_def)
  have h3: "fst (run_model 4 ex_obj ''pore.seed@left'' None) = Inr ()" by code_simp
  have h4: "CHR ''@'' \<notin> set ''pore.seed''" "map_of (models ex_obj) ''pore.seed'' = None"
    by (simp_all add: ex_obj_def)
  have c: "calls ex_obj = []" "map fst (models ex_obj) = [''pore.seed@left'', ''pore.seed@leftmost'']"
    by (simp_all add: ex_obj_def)
  show ?thesis
    using lazy_fan_out [of "''pore.seed@left''" ex_obj 4 "''pore.seed''"] h1 h2 h3 h4 c
    by (simp add: list_all_iff)
qed

text \<open>
  C1 as stated fails: in the example, where \<^verbatim>\<open>pore.seed\<close> is registered for the domains
  \<^verbatim>\<open>left\<close> and \<^verbatim>\<open>leftmost\<close> only, \<^verbatim>\<open>run_model('pore.seed')\<close> raises \<^verbatim>\<open>KeyError\<close> and no
  model is executed.
\<close>

theorem lazy_fan_out_counterexample:
  "map fst (models ex_obj) = [''pore.seed@left'', ''pore.seed@leftmost'']
   \<and> fst (run_model 4 ex_obj ''pore.seed'' None) = Inl (KeyError ''pore.seed'')
   \<and> calls (snd (run_model 4 ex_obj ''pore.seed'' None)) = []"
  by code_simp

section \<open>Regenerating all models\<close>

lemma filter_single:
  assumes "distinct xs" and "x \<in> set xs" and "\<And>b. b \<in> set xs \<Longrightarrow> P b \<longleftrightarrow> b = x"
  shows "filter P xs = [x]"
  using assms
proof (induction xs)
  case Nil
  then show ?case by simp
next
  case (Cons a xs)
  show ?case
  proof (cases "a = x")
    case True
    with Cons.prems have "filter P xs = []" by (auto simp: filter_empty_conv)
    with True Cons.prems(3) [of a] show ?thesis by simp
  next
    case False
    with Cons.prems have "filter P xs = [x]" by (intro Cons.IH) auto
    moreover from False Cons.prems(3) [of a] have "\<not> P a" by simp
    ultimately show ?thesis by simp
  qed
qed

lemma run_model_one:
  assumes dist: "distinct (map fst (models g))"
    and plain: "\<forall>item \<in> set (map fst (models g)). plain_name item"
    and nopre: "\<forall>a \<in> set (map fst (models g)). \<forall>b \<in> set (map fst (models g)).
                  CHR ''@'' \<in> set a \<and> startswith b a \<longrightarrow> b = a"
    and item: "item \<in> set (map fst (models g))"
    and run: "run_model d g item None = (r, g')"
  shows "models g' = models g" and "r = Inr () \<Longrightarrow> calls g' = calls g @ [item]"
proof -
  have self: "startswith item item" using startswith_append [of item "[]"] by simp
  show "models g' = models g"
  proof (cases "CHR ''@'' \<in> set item")
    case True
    with run have "run_items d g item (map fst (models g)) = (r, g')" by (simp add: run_model_def)
    from run_items_calls [OF this] show ?thesis by simp
  next
    case False
    with run have "run_model_global d g item = (r, g')" by (simp add: run_model_def)
    then show ?thesis by (rule run_model_global_calls(1))
  qed
  show "calls g' = calls g @ [item]" if ok: "r = Inr ()"
  proof (cases "CHR ''@'' \<in> set item")
    case False
    with run have "run_model_global d g item = (r, g')" by (simp add: run_model_def)
    from run_model_global_calls(2) [OF this ok] show ?thesis .
  next
    case True
    have "startswith b item \<longleftrightarrow> b = item" if "b \<in> set (map fst (models g))" for b
      using nopre item that True self by blast
    with dist item have one: "filter (\<lambda>b. startswith b item) (map fst (models g)) = [item]"
      by (intro filter_single) 
    have look: "lookup_name item (last (str_split CHR ''@'' item)) = item"
      using plain item True self by (intro plain_lookup) blast+
    from True run have "run_items d g item (map fst (models g)) = (r, g')"
      by (simp add: run_model_def)
    from run_items_calls [OF this] ok one look show ?thesis by simp
  qed
qed

lemma regen_items_calls:
  assumes "distinct (map fst ms)"
    and "\<forall>item \<in> set (map fst ms). plain_name item"
    and "\<forall>a \<in> set (map fst ms). \<forall>b \<in> set (map fst ms).
           CHR ''@'' \<in> set a \<and> startswith b a \<longrightarrow> b = a"
  shows "set names \<subseteq> set (map fst ms) \<Longrightarrow> models g = ms
         \<Longrightarrow> regen_items d g names = (Inr (), g') \<Longrightarrow> calls g' = calls g @ names"
proof (induction names arbitrary: g)
  case Nil
  then show ?case by simp
next
  case (Cons item rest)
  obtain r1 g1 where one: "run_model d g item None = (r1, g1)"
    by (cases "run_model d g item None")
  with Cons.prems(3) obtain u where r1: "r1 = Inr u" and rest: "regen_items d g1 rest = (Inr (), g')"
    by (cases r1) auto
  have in_ms: "item \<in> set (map fst (models g))" using Cons.prems(1,2) by simp
  have m1: "models g1 = models g"
    using assms in_ms one unfolding Cons.prems(2) [symmetric] by (rule run_model_one(1))
  have c1: "calls g1 = calls g @ [item]"
    using assms in_ms one r1 unfolding Cons.prems(2) [symmetric]
    by (intro run_model_one(2) [where d = d and r = r1]) simp_all
  have "calls g' = calls g1 @ rest"
    using Cons.prems(1,2) m1 rest by (intro Cons.IH) simp_all
  with c1 show ?case by simp
qed

text \<open>
  C6, as the code has it. When the registered names are those \<^verbatim>\<open>add_model\<close> forms, no
  name with an \<^verbatim>\<open>@\<close> is the beginning of another registered name, and
  \<^verbatim>\<open>regenerate_models\<close> returns, it has executed every registered name exactly once, in
  registration order.
\<close>

theorem regenerate_in_order:
  assumes "distinct (map fst (models g))"
    and "\<forall>item \<in> set (map fst (models g)). plain_name item"
    and "\<forall>a \<in> set (map fst (models g)). \<forall>b \<in> set (map fst (models g)).
           CHR ''@'' \<in> set a \<and> startswith b a \<longrightarrow> b = a"
    and "fst (regenerate_models d g) = Inr ()"
  shows "calls (snd (regenerate_models d g)) = calls g @ map fst (models g)"
proof -
  from assms(4) have "regen_items d g (map fst (models g)) = (Inr (), snd (regenerate_models d g))"
    by (cases "regen_items d g (map fst (models g))") (simp add: regenerate_models_def)
  with assms(1-3) show ?thesis
    by (intro regen_items_calls [where ms = "models g"]) auto
qed

theorem regenerate_in_order_witness:
  "distinct (map fst (models ex_plain_obj))
   \<and> list_all plain_name (map fst (models ex_plain_obj))
   \<and> list_all (\<lambda>a. list_all (\<lambda>b. \<not> (CHR ''@'' \<in> set a \<and> startswith b a) \<or> b = a)
                     (map fst (models ex_plain_obj))) (map fst (models ex_plain_obj))
   \<and> fst (regenerate_models 4 ex_plain_obj) = Inr ()
   \<and> calls (snd (regenerate_models 4 ex_plain_obj)) = [''pore.seed@left'', ''pore.one'']"
proof -
  have h1: "distinct (map fst (models ex_plain_obj))" by (simp add: ex_plain_obj_def)
  have h2: "list_all plain_name (map fst (models ex_plain_obj))"
    by (simp add: ex_plain_obj_def plain_name_def)
  have h3: "list_all (\<lambda>a. list_all (\<lambda>b. \<not> (CHR ''@'' \<in> set a \<and> startswith b a) \<or> b = a)
                     (map fst (models ex_plain_obj))) (map fst (models ex_plain_obj))"
    by (simp add: ex_plain_obj_def)
  have h4: "fst (regenerate_models 4 ex_plain_obj) = Inr ()" by code_simp
  have c: "calls ex_plain_obj = []" "map fst (models ex_plain_obj) = [''pore.seed@left'', ''pore.one'']"
    by (simp_all add: ex_plain_obj_def)
  have "calls (snd (regenerate_models 4 ex_plain_obj)) = calls ex_plain_obj @ map fst (models ex_plain_obj)"
    using h1 h2 h3 h4 by (intro regenerate_in_order) (auto simp: list_all_iff)
  with h1 h2 h3 h4 c show ?thesis by simp
qed

text \<open>
  C6 as stated fails. In the first registry \<^verbatim>\<open>pore.seed@left\<close> is the beginning of
  \<^verbatim>\<open>pore.seed@leftmost\<close>: the run of the first name executes both, the run of the second
  executes the second again. In the other registry the first model raises, and the
  second is never executed.
\<close>

theorem regenerate_counterexample:
  "map fst (models ex_obj) = [''pore.seed@left'', ''pore.seed@leftmost'']
   \<and> fst (regenerate_models 4 ex_obj) = Inr ()
   \<and> calls (snd (regenerate_models 4 ex_obj))
      = [''pore.seed@left'', ''pore.seed@leftmost'', ''pore.seed@leftmost'']
   \<and> map fst (models ex_throat_obj) = [''throat.seed@left'', ''pore.seed@left'']
   \<and> fst (regenerate_models 4 ex_throat_obj) = Inl (LengthError ''throat.seed'')
   \<and> calls (snd (regenerate_models 4 ex_throat_obj)) = [''throat.seed@left'']"
  by code_simp

end
